theory Spec2Isabelle
  imports
    Main
    "HOL-Library.Sublist"
    "HOL-Library.Char_ord"
    "HOL-Library.List_Lexorder"
begin

section \<open>gitwip: non-primary branches of the repositories under a directory\<close>

text \<open>
  A shallow embedding of \<^verbatim>\<open>src/src/gitwip/main.py\<close> (the packaged program) and of the
  locator of \<^verbatim>\<open>src/main.py\<close> (the earlier single-file script).

  Python's \<^verbatim>\<open>str\<close> is modelled by \<^typ>\<open>string\<close>; a character stands for the code point
  of the same number, so the model covers text over the code points 0 to 255, ordered as
  Python orders them (by code point).

  Up to the last section a command prints text that decodes, and what is said there of
  exceptions is said of such commands. The last section is about the command whose
  output may not decode, and the \<^verbatim>\<open>UnicodeDecodeError\<close> that \<^verbatim>\<open>subprocess.run\<close> then raises.
\<close>

subsection \<open>Python's string methods\<close>

datatype py_error = IndexError | ValueError

text \<open>\<^verbatim>\<open>str.isspace\<close> on one character, for the code points below 256.\<close>

definition is_space :: "char \<Rightarrow> bool" where
  "is_space c \<longleftrightarrow>
     (of_char c :: nat) \<in> {9, 10, 11, 12, 13, 28, 29, 30, 31, 32, 133, 160}"

text \<open>\<^verbatim>\<open>s.strip()\<close>: leading and trailing whitespace removed.\<close>

definition strip :: "string \<Rightarrow> string" where
  "strip s = rev (dropWhile is_space (rev (dropWhile is_space s)))"

text \<open>The line boundaries of \<^verbatim>\<open>str.splitlines\<close>, for the code points below 256.\<close>

definition is_linebreak :: "char \<Rightarrow> bool" where
  "is_linebreak c \<longleftrightarrow> (of_char c :: nat) \<in> {10, 11, 12, 13, 28, 29, 30, 133}"

text \<open>
  \<^verbatim>\<open>s.splitlines()\<close>. The first argument is the line read so far. A carriage return
  followed by a line feed is one boundary; text after the last boundary is a line
  only when it is not empty.
\<close>

fun splitlines_from :: "string \<Rightarrow> string \<Rightarrow> string list" where
  "splitlines_from cur [] = (if cur = [] then [] else [cur])"
| "splitlines_from cur [c] =
     (if is_linebreak c then [cur] else [cur @ [c]])"
| "splitlines_from cur (c # d # cs) =
     (if is_linebreak c then
        (if c = CHR 0x0D \<and> d = CHR 0x0A then cur # splitlines_from [] cs
         else cur # splitlines_from [] (d # cs))
      else splitlines_from (cur @ [c]) (d # cs))"

definition splitlines :: "string \<Rightarrow> string list" where
  "splitlines s = splitlines_from [] s"

text \<open>\<^verbatim>\<open>s.startswith(p)\<close>, \<^verbatim>\<open>s.removeprefix(p)\<close> and \<^verbatim>\<open>sub in s\<close>.\<close>

definition startswith :: "string \<Rightarrow> string \<Rightarrow> bool" where
  "startswith s p = prefix p s"

definition removeprefix :: "string \<Rightarrow> string \<Rightarrow> string" where
  "removeprefix s p = (if startswith s p then drop (length p) s else s)"

fun contains :: "string \<Rightarrow> string \<Rightarrow> bool" where
  "contains [] sub = (sub = [])"
| "contains (c # cs) sub = (startswith (c # cs) sub \<or> contains cs sub)"

text \<open>
  \<^verbatim>\<open>s.split(sep, 1)\<close> for a separator of one character: one piece when the separator
  does not occur, otherwise the text before its first occurrence and the text after it.
\<close>

definition split_once :: "string \<Rightarrow> char \<Rightarrow> string list" where
  "split_once s sep =
     (if sep \<in> set s
      then [takeWhile (\<lambda>c. c \<noteq> sep) s, tl (dropWhile (\<lambda>c. c \<noteq> sep) s)]
      else [s])"

text \<open>\<^verbatim>\<open>xs[i]\<close> for an index that is not negative; out of range it raises.\<close>

definition py_index :: "'a list \<Rightarrow> nat \<Rightarrow> py_error + 'a" where
  "py_index xs i = (if i < length xs then Inr (xs ! i) else Inl IndexError)"

text \<open>Truthiness of an optional string: \<^verbatim>\<open>None\<close> and \<^verbatim>\<open>''\<close> are false.\<close>

fun truthy :: "string option \<Rightarrow> bool" where
  "truthy None = False"
| "truthy (Some s) = (s \<noteq> [])"

subsection \<open>Paths\<close>

text \<open>
  An absolute POSIX path is the list of its components below the root \<^verbatim>\<open>/\<close>.
  \<^verbatim>\<open>str(p)\<close> joins them with slashes. \<^verbatim>\<open>pathlib\<close> compares two paths by their lists of
  components (\<^verbatim>\<open>PurePath.__lt__\<close> compares the parts, case-sensitively on POSIX), one
  component after the other and each as a string: the order of \<^typ>\<open>string list\<close> here.
\<close>

type_synonym path = "string list"

definition path_str :: "path \<Rightarrow> string" where
  "path_str p = (if p = [] then ''/'' else concat (map (\<lambda>c. CHR ''/'' # c) p))"

definition as_posix :: "path \<Rightarrow> string" where
  "as_posix p = path_str p"

text \<open>\<^verbatim>\<open>str\<close> of a relative path: the components joined, \<^verbatim>\<open>.\<close> when there is none.\<close>

definition rel_str :: "string list \<Rightarrow> string" where
  "rel_str cs = (if cs = [] then ''.'' else tl (concat (map (\<lambda>c. CHR ''/'' # c) cs)))"

text \<open>\<^verbatim>\<open>p.relative_to(other)\<close> raises \<^verbatim>\<open>ValueError\<close> unless \<^verbatim>\<open>other\<close> is \<^verbatim>\<open>p\<close> or above it.\<close>

definition relative_to :: "path \<Rightarrow> path \<Rightarrow> py_error + string list" where
  "relative_to p other =
     (if prefix other p then Inr (drop (length other) p) else Inl ValueError)"

subsection \<open>The directory tree and the locator\<close>

text \<open>
  What \<^verbatim>\<open>os.walk\<close> sees of an entry of a directory: a directory it can list, with its
  entries in the order of the listing; a symbolic link to a directory, which is named
  among the subdirectories and never entered; a directory whose listing fails, which is
  named by its parent and yields nothing; anything else (a file, a broken link).
  The root of a scan is a resolved directory, so the tree at the root is a \<open>Dir\<close>, or
  \<open>Unreadable\<close> when it cannot be listed.
\<close>

datatype fs_node =
    Dir "(string \<times> fs_node) list"
  | Link
  | Unreadable
  | File

fun is_dir :: "fs_node \<Rightarrow> bool" where
  "is_dir File = False"
| "is_dir _ = True"

text \<open>The entries \<^verbatim>\<open>os.walk\<close> reports as \<^verbatim>\<open>dirnames\<close>, each with the node it names.\<close>

definition subdirs :: "(string \<times> fs_node) list \<Rightarrow> (string \<times> fs_node) list" where
  "subdirs entries = filter (\<lambda>e. is_dir (snd e)) entries"

text \<open>The filter of \<^verbatim>\<open>get_git_repos\<close>: \<^verbatim>\<open>not d.startswith('.') or d == '.git'\<close>.\<close>

definition keep_name :: "string \<Rightarrow> bool" where
  "keep_name d \<longleftrightarrow> \<not> startswith d ''.'' \<or> d = ''.git''"

definition prune :: "bool \<Rightarrow> (string \<times> fs_node) list \<Rightarrow> (string \<times> fs_node) list" where
  "prune skip_hidden_dirs dirnames =
     (if skip_hidden_dirs then filter (\<lambda>e. keep_name (fst e)) dirnames else dirnames)"

text \<open>
  \<^verbatim>\<open>get_git_repos\<close> of \<^verbatim>\<open>src/src/gitwip/main.py\<close>: the loop over \<^verbatim>\<open>os.walk(root)\<close>, top down.
  The walk visits \<^verbatim>\<open>dirpath\<close>, the body prunes \<^verbatim>\<open>dirnames\<close> in place, and the walk
  continues into what is left of \<^verbatim>\<open>dirnames\<close>, in order.
\<close>

function walk_repos :: "bool \<Rightarrow> path \<Rightarrow> fs_node \<Rightarrow> path list" where
  "walk_repos skip_hidden_dirs dirpath (Dir entries) =
     (let dirnames = prune skip_hidden_dirs (subdirs entries) in
      if ''.git'' \<in> set (map fst dirnames) then [dirpath]
      else concat (map (\<lambda>e. walk_repos skip_hidden_dirs (dirpath @ [fst e]) (snd e)) dirnames))"
| "walk_repos skip_hidden_dirs dirpath Link = []"
| "walk_repos skip_hidden_dirs dirpath Unreadable = []"
| "walk_repos skip_hidden_dirs dirpath File = []"
  by pat_completeness auto
termination
proof (relation "measure (\<lambda>(s, p, t). size t)", goal_cases)
  case 1
  show ?case by simp
next
  case (2 s p entries dirnames e)
  have "e \<in> set entries"
    using 2 by (auto simp: prune_def subdirs_def split: if_splits)
  then have "size (snd e) < size (Dir entries)"
    by (induction entries) (auto simp: less_Suc_eq_le)
  then show ?case by simp
qed

definition get_git_repos :: "path \<Rightarrow> fs_node \<Rightarrow> bool \<Rightarrow> path list" where
  "get_git_repos root tree skip_hidden_dirs = walk_repos skip_hidden_dirs root tree"

text \<open>
  \<^verbatim>\<open>get_git_repos\<close> of \<^verbatim>\<open>src/main.py\<close>, embedded from that file on its own, with the
  list comprehension and the membership test written out.
\<close>

function walk_repos_script :: "bool \<Rightarrow> path \<Rightarrow> fs_node \<Rightarrow> path list" where
  "walk_repos_script skip_hidden_dirs dirpath (Dir entries) =
     (let dirnames = [e \<leftarrow> entries. is_dir (snd e)];
          dirnames = (if skip_hidden_dirs
                      then [d \<leftarrow> dirnames. \<not> startswith (fst d) ''.'' \<or> fst d = ''.git'']
                      else dirnames) in
      if (\<exists>d \<in> set dirnames. fst d = ''.git'') then [dirpath]
      else concat (map (\<lambda>d. walk_repos_script skip_hidden_dirs (dirpath @ [fst d]) (snd d))
                     dirnames))"
| "walk_repos_script skip_hidden_dirs dirpath Link = []"
| "walk_repos_script skip_hidden_dirs dirpath Unreadable = []"
| "walk_repos_script skip_hidden_dirs dirpath File = []"
  by pat_completeness auto
termination
proof (relation "measure (\<lambda>(s, p, t). size t)", goal_cases)
  case 1
  show ?case by simp
next
  case (2 s p entries dirnames dirnames' d)
  have "d \<in> set entries"
    using 2 by (auto split: if_splits)
  then have "size (snd d) < size (Dir entries)"
    by (induction entries) (auto simp: less_Suc_eq_le)
  then show ?case by simp
qed

definition get_git_repos_script :: "path \<Rightarrow> fs_node \<Rightarrow> bool \<Rightarrow> path list" where
  "get_git_repos_script root tree skip_hidden_dirs = walk_repos_script skip_hidden_dirs root tree"

text \<open>A directory tree of a real file system names each entry of a directory once.\<close>

fun distinct_names :: "fs_node \<Rightarrow> bool" where
  "distinct_names (Dir entries) \<longleftrightarrow>
     distinct (map fst entries) \<and> list_all (\<lambda>e. distinct_names (snd e)) entries"
| "distinct_names _ \<longleftrightarrow> True"

subsection \<open>The external command\<close>

text \<open>
  \<^verbatim>\<open>subprocess.run\<close> with captured text output is a function from the argument vector
  to the completed process: its exit status and its standard output. With
  \<^verbatim>\<open>check=True\<close> a status other than zero raises \<^verbatim>\<open>CalledProcessError\<close>, which every
  caller below catches. A scan runs each command at most once for a repository, so
  a function of the argument vector says all that the scan sees of the command.
  This is the command as long as what it prints decodes as text; the other outcome, and
  the exception it raises, are embedded further down, where the outcome of a command is
  a \<open>run_outcome\<close>.
\<close>

record completed_process =
  returncode :: int
  stdout :: string

type_synonym runner = "string list \<Rightarrow> completed_process"

definition git_argv :: "path \<Rightarrow> path \<Rightarrow> string list \<Rightarrow> string list" where
  "git_argv git_path repo_path args = as_posix git_path # ''-C'' # path_str repo_path # args"

definition get_repo_branches :: "runner \<Rightarrow> path \<Rightarrow> path \<Rightarrow> string list" where
  "get_repo_branches run repo_path git_path =
     (let result = run (git_argv git_path repo_path [''branch'', ''--format=%(refname:short)''])
      in if returncode result \<noteq> 0 then []
         else map strip (splitlines (strip (stdout result))))"

subsection \<open>The primary branch\<close>

text \<open>The inner \<^verbatim>\<open>_run_git\<close>: the stripped output, \<^verbatim>\<open>None\<close> when the command fails.\<close>

definition run_git :: "runner \<Rightarrow> path \<Rightarrow> path \<Rightarrow> string list \<Rightarrow> string option" where
  "run_git run repo_path git_path args =
     (let result = run (git_argv git_path repo_path args)
      in if returncode result \<noteq> 0 then None else Some (strip (stdout result)))"

text \<open>The string of an optional string that passed the truth test.\<close>

fun text_of :: "string option \<Rightarrow> string" where
  "text_of None = []"
| "text_of (Some s) = s"

text \<open>
  Strategy 2, the loop over the lines of \<^verbatim>\<open>remote show origin\<close>: the first line with
  the marker returns \<^verbatim>\<open>line.split(':', 1)[1].strip()\<close>.
\<close>

fun scan_head_branch :: "string list \<Rightarrow> py_error + string option" where
  "scan_head_branch [] = Inr None"
| "scan_head_branch (line # lines) =
     (if contains line ''HEAD branch:''
      then (case py_index (split_once line CHR '':'') 1 of
              Inl e \<Rightarrow> Inl e
            | Inr t \<Rightarrow> Inr (Some (strip t)))
      else scan_head_branch lines)"

text \<open>
  Strategy 3, the loop over \<^verbatim>\<open>('main', 'master')\<close>: the arguments of the command for
  one name, the test of the loop, and the loop. The second component of its result
  lists the commands run, in order.
\<close>

definition show_ref_args :: "string \<Rightarrow> string list" where
  "show_ref_args branch = [''show-ref'', ''--verify'', ''refs/heads/'' @ branch]"

definition ref_verified :: "runner \<Rightarrow> path \<Rightarrow> path \<Rightarrow> string \<Rightarrow> bool" where
  "ref_verified run repo_path git_path branch =
     truthy (run_git run repo_path git_path (show_ref_args branch))"

fun probe_branches ::
  "runner \<Rightarrow> path \<Rightarrow> path \<Rightarrow> string list \<Rightarrow> string option \<times> string list list" where
  "probe_branches run repo_path git_path [] = (None, [])"
| "probe_branches run repo_path git_path (branch # rest) =
     (if ref_verified run repo_path git_path branch
      then (Some branch, [git_argv git_path repo_path (show_ref_args branch)])
      else (let (found, cmds) = probe_branches run repo_path git_path rest
            in (found, git_argv git_path repo_path (show_ref_args branch) # cmds)))"

text \<open>
  \<^verbatim>\<open>get_primary_branch\<close>. The result is the returned value or the exception raised,
  paired with the commands run, in order.
\<close>

definition get_primary_branch ::
  "runner \<Rightarrow> path \<Rightarrow> path \<Rightarrow> (py_error + string option) \<times> string list list" where
  "get_primary_branch run repo_path git_path =
     (let args1 = [''symbolic-ref'', ''refs/remotes/origin/HEAD''];
          cmd1 = git_argv git_path repo_path args1;
          ref = run_git run repo_path git_path args1 in
      if truthy ref
      then (Inr (Some (removeprefix (text_of ref) ''refs/remotes/origin/'')), [cmd1])
      else
       (let args2 = [''remote'', ''show'', ''origin''];
            cmd2 = git_argv git_path repo_path args2;
            output = run_git run repo_path git_path args2 in
        case (if truthy output then scan_head_branch (splitlines (text_of output))
              else Inr None) of
          Inl e \<Rightarrow> (Inl e, [cmd1, cmd2])
        | Inr (Some name) \<Rightarrow> (Inr (Some name), [cmd1, cmd2])
        | Inr None \<Rightarrow>
            (let (found, cmds) = probe_branches run repo_path git_path [''main'', ''master'']
             in (Inr found, cmd1 # cmd2 # cmds))))"

subsection \<open>The report\<close>

text \<open>
  A printed line is a styled text, \<^verbatim>\<open>p(style(text, colour))\<close>, or the empty line of
  \<^verbatim>\<open>p()\<close>. The escape sequences of \<^verbatim>\<open>fortext\<close> are not modelled.
\<close>

datatype fg = BRIGHT_CYAN | YELLOW

datatype out_line = Styled string fg | Blank

text \<open>The \<^verbatim>\<open>try\<close> block of the report: only \<^verbatim>\<open>ValueError\<close> is caught.\<close>

definition display_path :: "path \<Rightarrow> path \<Rightarrow> py_error + string" where
  "display_path home repo_path =
     (case relative_to repo_path home of
        Inr rel \<Rightarrow> Inr (''~/'' @ rel_str rel)
      | Inl ValueError \<Rightarrow> Inr (path_str repo_path)
      | Inl e \<Rightarrow> Inl e)"

definition repo_block :: "string \<Rightarrow> string list \<Rightarrow> out_line list" where
  "repo_block shown branches =
     Styled (''=== '' @ shown @ '' ==='') BRIGHT_CYAN
       # map (\<lambda>branch. Styled (''* '' @ branch) YELLOW) branches @ [Blank]"

text \<open>The body of the loop of \<^verbatim>\<open>find_repos_with_branches\<close>, for one repository.\<close>

definition report_repo :: "runner \<Rightarrow> path \<Rightarrow> path \<Rightarrow> path \<Rightarrow> py_error + out_line list" where
  "report_repo run home git_path repo_path =
     (let all_branches = get_repo_branches run repo_path git_path in
      case fst (get_primary_branch run repo_path git_path) of
        Inl e \<Rightarrow> Inl e
      | Inr primary_branch \<Rightarrow>
          (let branches = [b \<leftarrow> all_branches. Some b \<noteq> primary_branch] in
           if branches \<noteq> []
           then (case display_path home repo_path of
                   Inl e \<Rightarrow> Inl e
                 | Inr shown \<Rightarrow> Inr (repo_block shown branches))
           else Inr []))"

text \<open>
  The loop: the lines printed, and the exception that ended it early, if any. Lines
  printed before an exception stay printed.
\<close>

fun report_loop ::
  "runner \<Rightarrow> path \<Rightarrow> path \<Rightarrow> path list \<Rightarrow> out_line list \<times> py_error option" where
  "report_loop run home git_path [] = ([], None)"
| "report_loop run home git_path (repo_path # rest) =
     (case report_repo run home git_path repo_path of
        Inl e \<Rightarrow> ([], Some e)
      | Inr printed \<Rightarrow>
          (let (more, err) = report_loop run home git_path rest in (printed @ more, err)))"

text \<open>
  The repositories in the order the loop takes them: \<^verbatim>\<open>sorted\<close> of the set of the
  resolved paths. \<^verbatim>\<open>resolve\<close> is the canonicalisation of the file system.
\<close>

definition repo_order :: "(path \<Rightarrow> path) \<Rightarrow> fs_node \<Rightarrow> path \<Rightarrow> bool \<Rightarrow> path list" where
  "repo_order resolve tree root skip_hidden_dirs =
     sorted_list_of_set (resolve ` set (get_git_repos root tree skip_hidden_dirs))"

definition find_repos_with_branches ::
  "(path \<Rightarrow> path) \<Rightarrow> fs_node \<Rightarrow> runner \<Rightarrow> path \<Rightarrow> path \<Rightarrow> path \<Rightarrow> bool
     \<Rightarrow> out_line list \<times> py_error option" where
  "find_repos_with_branches resolve tree run home root git_path skip_hidden_dirs =
     report_loop run home git_path (repo_order resolve tree root skip_hidden_dirs)"

subsection \<open>Output that does not decode\<close>

text \<open>
  With \<^verbatim>\<open>text=True\<close>, \<^verbatim>\<open>subprocess.run\<close> decodes what it captured before it looks at the
  exit status, and raises \<^verbatim>\<open>UnicodeDecodeError\<close> when the bytes are not text in the
  encoding of the locale (a branch name in Latin-1 under a UTF-8 locale). No function of
  the program catches it. The functions above are the program as long as every captured
  output decodes. The functions below are the same functions with the other outcome of
  a command, and with the exception passed on as the program passes it on.
\<close>

datatype run_outcome = Completed completed_process | Undecodable

type_synonym raw_runner = "string list \<Rightarrow> run_outcome"

datatype scan_error = UnicodeDecodeError | Raised py_error


definition get_repo_branches_raw :: "raw_runner \<Rightarrow> path \<Rightarrow> path \<Rightarrow> scan_error + string list" where
  "get_repo_branches_raw run repo_path git_path =
     (case run (git_argv git_path repo_path [''branch'', ''--format=%(refname:short)'']) of
        Undecodable \<Rightarrow> Inl UnicodeDecodeError
      | Completed result \<Rightarrow>
          Inr (if returncode result \<noteq> 0 then []
               else map strip (splitlines (strip (stdout result)))))"

definition run_git_raw ::
  "raw_runner \<Rightarrow> path \<Rightarrow> path \<Rightarrow> string list \<Rightarrow> scan_error + string option" where
  "run_git_raw run repo_path git_path args =
     (case run (git_argv git_path repo_path args) of
        Undecodable \<Rightarrow> Inl UnicodeDecodeError
      | Completed result \<Rightarrow>
          Inr (if returncode result \<noteq> 0 then None else Some (strip (stdout result))))"

fun probe_branches_raw ::
  "raw_runner \<Rightarrow> path \<Rightarrow> path \<Rightarrow> string list
     \<Rightarrow> (scan_error + string option) \<times> string list list" where
  "probe_branches_raw run repo_path git_path [] = (Inr None, [])"
| "probe_branches_raw run repo_path git_path (branch # rest) =
     (case run_git_raw run repo_path git_path (show_ref_args branch) of
        Inl e \<Rightarrow> (Inl e, [git_argv git_path repo_path (show_ref_args branch)])
      | Inr shown \<Rightarrow>
          if truthy shown
          then (Inr (Some branch), [git_argv git_path repo_path (show_ref_args branch)])
          else (let (found, cmds) = probe_branches_raw run repo_path git_path rest
                in (found, git_argv git_path repo_path (show_ref_args branch) # cmds)))"

definition get_primary_branch_raw ::
  "raw_runner \<Rightarrow> path \<Rightarrow> path \<Rightarrow> (scan_error + string option) \<times> string list list" where
  "get_primary_branch_raw run repo_path git_path =
     (let args1 = [''symbolic-ref'', ''refs/remotes/origin/HEAD''];
          cmd1 = git_argv git_path repo_path args1 in
      case run_git_raw run repo_path git_path args1 of
        Inl e \<Rightarrow> (Inl e, [cmd1])
      | Inr ref \<Rightarrow>
          if truthy ref
          then (Inr (Some (removeprefix (text_of ref) ''refs/remotes/origin/'')), [cmd1])
          else
           (let args2 = [''remote'', ''show'', ''origin''];
                cmd2 = git_argv git_path repo_path args2 in
            case run_git_raw run repo_path git_path args2 of
              Inl e \<Rightarrow> (Inl e, [cmd1, cmd2])
            | Inr shown \<Rightarrow>
               (case (if truthy shown then scan_head_branch (splitlines (text_of shown))
                      else Inr None) of
                  Inl e \<Rightarrow> (Inl (Raised e), [cmd1, cmd2])
                | Inr (Some name) \<Rightarrow> (Inr (Some name), [cmd1, cmd2])
                | Inr None \<Rightarrow>
                    (let (found, cmds) =
                       probe_branches_raw run repo_path git_path [''main'', ''master'']
                     in (found, cmd1 # cmd2 # cmds)))))"

text \<open>
  The body of the loop: the branch listing comes first, so its exception leaves the
  primary branch unasked.
\<close>

definition report_repo_raw ::
  "raw_runner \<Rightarrow> path \<Rightarrow> path \<Rightarrow> path \<Rightarrow> scan_error + out_line list" where
  "report_repo_raw run home git_path repo_path =
     (case get_repo_branches_raw run repo_path git_path of
        Inl e \<Rightarrow> Inl e
      | Inr all_branches \<Rightarrow>
         (case fst (get_primary_branch_raw run repo_path git_path) of
            Inl e \<Rightarrow> Inl e
          | Inr primary_branch \<Rightarrow>
              (let branches = [b \<leftarrow> all_branches. Some b \<noteq> primary_branch] in
               if branches \<noteq> []
               then (case display_path home repo_path of
                       Inl e \<Rightarrow> Inl (Raised e)
                     | Inr shown \<Rightarrow> Inr (repo_block shown branches))
               else Inr [])))"

fun report_loop_raw ::
  "raw_runner \<Rightarrow> path \<Rightarrow> path \<Rightarrow> path list \<Rightarrow> out_line list \<times> scan_error option" where
  "report_loop_raw run home git_path [] = ([], None)"
| "report_loop_raw run home git_path (repo_path # rest) =
     (case report_repo_raw run home git_path repo_path of
        Inl e \<Rightarrow> ([], Some e)
      | Inr printed \<Rightarrow>
          (let (more, err) = report_loop_raw run home git_path rest in (printed @ more, err)))"

definition find_repos_with_branches_raw ::
  "(path \<Rightarrow> path) \<Rightarrow> fs_node \<Rightarrow> raw_runner \<Rightarrow> path \<Rightarrow> path \<Rightarrow> path \<Rightarrow> bool
     \<Rightarrow> out_line list \<times> scan_error option" where
  "find_repos_with_branches_raw resolve tree run home root git_path skip_hidden_dirs =
     report_loop_raw run home git_path (repo_order resolve tree root skip_hidden_dirs)"

subsection \<open>Example inputs\<close>

text \<open>
  A tree under \<^verbatim>\<open>/r\<close>: a repository two levels down, a repository with a repository
  nested in it, a repository inside a hidden directory, a file and a link.
\<close>

definition example_tree :: fs_node where
  "example_tree =
     Dir [(''a'', Dir [(''x'', Dir [(''.git'', Dir [])])]),
          (''a-b'', Dir [(''.git'', Dir []), (''sub'', Dir [(''.git'', Dir [])])]),
          (''.cache'', Dir [(''repo'', Dir [(''.git'', Dir [])])]),
          (''notes'', File),
          (''link'', Link)]"

text \<open>
  Three repositories as the command answers for them: one whose \<^verbatim>\<open>origin/HEAD\<close> is set;
  one where only \<^verbatim>\<open>remote show origin\<close> answers; one with no remote and a local
  \<^verbatim>\<open>master\<close>. Every other command exits with status 128 and prints nothing.
\<close>

definition failed :: completed_process where
  "failed = \<lparr>returncode = 128, stdout = []\<rparr>"

definition run_origin_head :: runner where
  "run_origin_head argv =
     (if drop 3 argv = [''symbolic-ref'', ''refs/remotes/origin/HEAD'']
      then \<lparr>returncode = 0, stdout = ''refs/remotes/origin/develop\<newline>''\<rparr>
      else failed)"

definition run_remote_show :: runner where
  "run_remote_show argv =
     (if drop 3 argv = [''remote'', ''show'', ''origin'']
      then \<lparr>returncode = 0,
            stdout = ''* remote origin\<newline>  HEAD branch: trunk\<newline>  Remote branch:\<newline>''\<rparr>
      else failed)"

definition run_local :: runner where
  "run_local argv =
     (if drop 3 argv = [''show-ref'', ''--verify'', ''refs/heads/master'']
      then \<lparr>returncode = 0, stdout = ''5f3c refs/heads/master\<newline>''\<rparr>
      else if drop 3 argv = [''branch'', ''--format=%(refname:short)'']
      then \<lparr>returncode = 0, stdout = ''master\<newline>feature/x\<newline>bugfix\<newline>''\<rparr>
      else failed)"

text \<open>
  A repository with one local branch and nothing that names a primary branch, and a
  command that fails for the repository \<^verbatim>\<open>/home/u/broken\<close> and answers as \<^verbatim>\<open>run_local\<close>
  for every other one.
\<close>

definition run_listing_only :: runner where
  "run_listing_only argv =
     (if drop 3 argv = [''branch'', ''--format=%(refname:short)'']
      then \<lparr>returncode = 0, stdout = ''topic\<newline>''\<rparr>
      else failed)"


text \<open>
  A tree under \<^verbatim>\<open>/r\<close> whose names have no character below the slash; a file system in
  which \<^verbatim>\<open>resolve\<close> changes no path; one in which \<^verbatim>\<open>/r/a-b\<close> is another name of
  \<^verbatim>\<open>/r/a/x\<close>; and a command that always fails.
\<close>

definition example_tree_plain :: fs_node where
  "example_tree_plain =
     Dir [(''b'', Dir [(''.git'', Dir [])]),
          (''a'', Dir [(''x'', Dir [(''.git'', Dir [])])])]"

definition resolve_plain :: "path \<Rightarrow> path" where
  "resolve_plain p = p"

definition resolve_alias :: "path \<Rightarrow> path" where
  "resolve_alias p = (if prefix [''r'', ''a-b''] p then [''r'', ''a'', ''x''] @ drop 2 p else p)"

definition run_nothing :: runner where
  "run_nothing argv = failed"


text \<open>
  Two repositories whose remote answers without a name: in one \<^verbatim>\<open>remote show origin\<close>
  prints the marker with nothing after the colon, while a local \<^verbatim>\<open>main\<close> exists; in the
  other \<^verbatim>\<open>symbolic-ref\<close> prints the prefix alone.
\<close>

definition run_head_blank :: runner where
  "run_head_blank argv =
     (if drop 3 argv = [''remote'', ''show'', ''origin'']
      then \<lparr>returncode = 0, stdout = ''* remote origin\<newline>  HEAD branch:\<newline>''\<rparr>
      else if drop 3 argv = [''show-ref'', ''--verify'', ''refs/heads/main'']
      then \<lparr>returncode = 0, stdout = ''5f3c refs/heads/main\<newline>''\<rparr>
      else failed)"

definition run_origin_blank :: runner where
  "run_origin_blank argv =
     (if drop 3 argv = [''symbolic-ref'', ''refs/remotes/origin/HEAD'']
      then \<lparr>returncode = 0, stdout = ''refs/remotes/origin/\<newline>''\<rparr>
      else failed)"


section \<open>The locator\<close>

text \<open>One unfolding of each walk, in a common shape.\<close>

lemma walk_repos_Dir:
  "walk_repos s p (Dir entries) =
     (if ''.git'' \<in> set (map fst (prune s (subdirs entries))) then [p]
      else concat (map (\<lambda>e. walk_repos s (p @ [fst e]) (snd e)) (prune s (subdirs entries))))"
  by (simp add: Let_def)

lemma walk_repos_script_Dir:
  "walk_repos_script s p (Dir entries) =
     (if ''.git'' \<in> set (map fst (prune s (subdirs entries))) then [p]
      else concat (map (\<lambda>d. walk_repos_script s (p @ [fst d]) (snd d))
                     (prune s (subdirs entries))))"
proof -
  have ds: "(if s then [d \<leftarrow> [e \<leftarrow> entries. is_dir (snd e)].
                         \<not> startswith (fst d) ''.'' \<or> fst d = ''.git'']
             else [e \<leftarrow> entries. is_dir (snd e)]) = prune s (subdirs entries)"
    by (simp add: prune_def subdirs_def keep_name_def)
  have git: "(\<exists>d \<in> set (prune s (subdirs entries)). fst d = ''.git'')
               \<longleftrightarrow> ''.git'' \<in> set (map fst (prune s (subdirs entries)))"
    by force
  show ?thesis
    unfolding walk_repos_script.simps Let_def ds git ..
qed

declare walk_repos.simps(1) [simp del]
declare walk_repos_script.simps(1) [simp del]

lemma walk_repos_script_eq: "walk_repos_script s p t = walk_repos s p t"
proof (induction s p t rule: walk_repos.induct)
  case (1 s p entries)
  let ?ds = "prune s (subdirs entries)"
  show ?case
  proof (cases "''.git'' \<in> set (map fst ?ds)")
    case True
    then show ?thesis
      by (simp only: walk_repos_script_Dir walk_repos_Dir if_True)
  next
    case False
    have "map (\<lambda>d. walk_repos_script s (p @ [fst d]) (snd d)) ?ds
        = map (\<lambda>e. walk_repos s (p @ [fst e]) (snd e)) ?ds"
      by (rule map_cong [OF refl]) (rule 1 [OF refl False])
    with False show ?thesis
      by (simp only: walk_repos_script_Dir walk_repos_Dir if_False)
  qed
qed simp_all

text \<open>
  C10. The locator of \<^verbatim>\<open>src/main.py\<close> and the locator of \<^verbatim>\<open>src/src/gitwip/main.py\<close>
  return the same list of repository paths, in the same order, for every root, every
  directory tree and either value of the flag.
\<close>

theorem get_git_repos_script_eq:
  "get_git_repos_script root tree skip_hidden_dirs = get_git_repos root tree skip_hidden_dirs"
  by (simp only: get_git_repos_script_def get_git_repos_def walk_repos_script_eq)

lemma keep_name_git: "keep_name ''.git''"
  by (simp add: keep_name_def)

lemma git_survives_prune:
  "''.git'' \<in> set (map fst (prune s ds)) \<longleftrightarrow> ''.git'' \<in> set (map fst ds)"
  by (cases s) (force simp: prune_def keep_name_git)+

lemma walk_repos_git:
  "''.git'' \<in> set (map fst (subdirs entries)) \<Longrightarrow> walk_repos s d (Dir entries) = [d]"
  by (simp only: walk_repos_Dir git_survives_prune if_True)

lemma prune_hidden_entries:
  "prune True (subdirs [e \<leftarrow> entries. keep_name (fst e)]) = prune True (subdirs entries)"
  by (induction entries) (auto simp: prune_def subdirs_def)

lemma walk_repos_hidden_dropped:
  "walk_repos True d (Dir [e \<leftarrow> entries. keep_name (fst e)]) = walk_repos True d (Dir entries)"
  by (simp only: walk_repos_Dir prune_hidden_entries)

lemma walk_repos_prefix: "p \<in> set (walk_repos s d t) \<Longrightarrow> prefix d p"
proof (induction s d t arbitrary: p rule: walk_repos.induct)
  case (1 s d entries)
  show ?case
  proof (cases "''.git'' \<in> set (map fst (prune s (subdirs entries)))")
    case True
    with 1(2) show ?thesis by (simp add: walk_repos_Dir)
  next
    case False
    with 1(2) obtain e where e: "e \<in> set (prune s (subdirs entries))"
      and p: "p \<in> set (walk_repos s (d @ [fst e]) (snd e))"
      by (auto simp: walk_repos_Dir)
    from 1(1) [OF refl False e p] have "prefix (d @ [fst e]) p" .
    then show ?thesis by (rule append_prefixD)
  qed
qed simp_all

lemma walk_repos_visible:
  "p \<in> set (walk_repos True d t) \<Longrightarrow> c \<in> set (drop (length d) p) \<Longrightarrow> \<not> startswith c ''.''"
proof (induction True d t arbitrary: p rule: walk_repos.induct)
  case (1 d entries)
  show ?case
  proof (cases "''.git'' \<in> set (map fst (prune True (subdirs entries)))")
    case True
    with 1(2,3) show ?thesis by (simp add: walk_repos_Dir)
  next
    case False
    with 1(2) obtain e where e: "e \<in> set (prune True (subdirs entries))"
      and p: "p \<in> set (walk_repos True (d @ [fst e]) (snd e))"
      by (auto simp: walk_repos_Dir)
    from e False have "fst e \<noteq> ''.git''" by force
    moreover from e have "keep_name (fst e)" by (simp add: prune_def)
    ultimately have vis: "\<not> startswith (fst e) ''.''" by (simp add: keep_name_def)
    from walk_repos_prefix [OF p] obtain r where r: "p = (d @ [fst e]) @ r"
      by (auto simp: prefix_def)
    with 1(3) have "c = fst e \<or> c \<in> set r" by auto
    then show ?thesis
    proof
      assume "c = fst e" with vis show ?thesis by simp
    next
      assume "c \<in> set r"
      with r have "c \<in> set (drop (length (d @ [fst e])) p)" by simp
      from 1(1) [OF refl False e p this] show ?thesis .
    qed
  qed
qed simp_all

lemma distinct_names_entry:
  "distinct_names (Dir entries) \<Longrightarrow> e \<in> set entries \<Longrightarrow> distinct_names (snd e)"
  by (simp add: list_all_iff)

lemma pruned_in_entries: "e \<in> set (prune s (subdirs entries)) \<Longrightarrow> e \<in> set entries"
  by (auto simp: prune_def subdirs_def split: if_splits)

lemma walk_repos_antichain:
  "distinct_names t \<Longrightarrow> p \<in> set (walk_repos s d t) \<Longrightarrow> q \<in> set (walk_repos s d t)
     \<Longrightarrow> \<not> strict_prefix p q"
proof (induction s d t arbitrary: p q rule: walk_repos.induct)
  case (1 s d entries)
  show ?case
  proof (cases "''.git'' \<in> set (map fst (prune s (subdirs entries)))")
    case True
    with 1(3,4) show ?thesis by (simp add: walk_repos_Dir)
  next
    case False
    with 1(3) obtain e where e: "e \<in> set (prune s (subdirs entries))"
      and p: "p \<in> set (walk_repos s (d @ [fst e]) (snd e))"
      by (auto simp: walk_repos_Dir)
    from False 1(4) obtain f where f: "f \<in> set (prune s (subdirs entries))"
      and q: "q \<in> set (walk_repos s (d @ [fst f]) (snd f))"
      by (auto simp: walk_repos_Dir)
    have e_in: "e \<in> set entries" and f_in: "f \<in> set entries"
      using e f by (auto dest: pruned_in_entries)
    show ?thesis
    proof
      assume pq: "strict_prefix p q"
      have "prefix (d @ [fst e]) q"
        using walk_repos_prefix [OF p] pq by (auto simp: strict_prefix_def)
      moreover have "prefix (d @ [fst f]) q"
        by (rule walk_repos_prefix [OF q])
      ultimately have "fst e = fst f"
        by (auto simp: prefix_def append_eq_append_conv2 Cons_eq_append_conv)
      moreover from 1(2) have "distinct (map fst entries)" by simp
      ultimately have "e = f"
        using e_in f_in by (metis distinct_map inj_onD)
      with q have q': "q \<in> set (walk_repos s (d @ [fst e]) (snd e))" by simp
      from 1(1) [OF refl False e distinct_names_entry [OF 1(2) e_in] p q'] pq
      show False by simp
    qed
  qed
qed simp_all


text \<open>
  C6. With \<^verbatim>\<open>skip_hidden_dirs\<close> set, the subdirectories whose name starts with a dot, other
  than \<^verbatim>\<open>.git\<close>, have no effect on the walk of a directory, and no component below the
  root of a reported path starts with a dot. Under either flag a directory that has
  \<^verbatim>\<open>.git\<close> among its subdirectories yields itself and nothing below it; and in a tree
  whose directories name each entry once, no reported path lies below another one.
\<close>

theorem get_git_repos_prunes:
  "walk_repos True d (Dir [e \<leftarrow> entries. \<not> startswith (fst e) ''.'' \<or> fst e = ''.git''])
     = walk_repos True d (Dir entries)
   \<and> (\<forall>p \<in> set (get_git_repos root tree True).
         prefix root p \<and> (\<forall>c \<in> set (drop (length root) p). \<not> startswith c ''.''))
   \<and> (''.git'' \<in> set (map fst (subdirs entries)) \<longrightarrow> walk_repos skip d (Dir entries) = [d])
   \<and> (distinct_names tree \<longrightarrow>
        (\<forall>p \<in> set (get_git_repos root tree skip). \<forall>q \<in> set (get_git_repos root tree skip).
           \<not> strict_prefix p q))"
proof (intro conjI ballI impI)
  show "walk_repos True d (Dir [e \<leftarrow> entries. \<not> startswith (fst e) ''.'' \<or> fst e = ''.git''])
     = walk_repos True d (Dir entries)"
    using walk_repos_hidden_dropped [of d entries] by (simp only: keep_name_def)
next
  fix p assume "p \<in> set (get_git_repos root tree True)"
  then show "prefix root p"
    unfolding get_git_repos_def by (rule walk_repos_prefix)
next
  fix p c assume "p \<in> set (get_git_repos root tree True)" "c \<in> set (drop (length root) p)"
  then show "\<not> startswith c ''.''"
    unfolding get_git_repos_def by (rule walk_repos_visible)
next
  assume "''.git'' \<in> set (map fst (subdirs entries))"
  then show "walk_repos skip d (Dir entries) = [d]"
    by (rule walk_repos_git)
next
  fix p q
  assume "distinct_names tree" "p \<in> set (get_git_repos root tree skip)"
    "q \<in> set (get_git_repos root tree skip)"
  then show "\<not> strict_prefix p q"
    unfolding get_git_repos_def by (rule walk_repos_antichain)
qed

theorem get_git_repos_prunes_witness:
  "distinct_names example_tree
   \<and> get_git_repos [''r''] example_tree True = [[''r'', ''a'', ''x''], [''r'', ''a-b'']]
   \<and> get_git_repos [''r''] example_tree False
       = [[''r'', ''a'', ''x''], [''r'', ''a-b''], [''r'', ''.cache'', ''repo'']]
   \<and> ''.git'' \<in> set (map fst (subdirs [(''.git'', Dir []), (''sub'', Dir [(''.git'', Dir [])])]))
   \<and> walk_repos True [''r'', ''a-b''] (Dir [(''.git'', Dir []), (''sub'', Dir [(''.git'', Dir [])])])
       = [[''r'', ''a-b'']]
   \<and> \<not> startswith ''a-b'' ''.''
   \<and> [''r'', ''a-b'', ''sub''] \<notin> set (get_git_repos [''r''] example_tree False)"
proof -
  let ?es = "[(''.git'', Dir []), (''sub'', Dir [(''.git'', Dir [])])]"
  note main = get_git_repos_prunes [of "[''r'', ''a-b'']" ?es "[''r'']" example_tree True]
  note main' = get_git_repos_prunes [of "[''r'', ''a-b'']" ?es "[''r'']" example_tree False]
  have dn: "distinct_names example_tree"
    by (simp add: example_tree_def)
  have t: "get_git_repos [''r''] example_tree True = [[''r'', ''a'', ''x''], [''r'', ''a-b'']]"
    by (simp add: walk_repos_Dir prune_def subdirs_def keep_name_def startswith_def
        get_git_repos_def example_tree_def)
  have f: "get_git_repos [''r''] example_tree False
       = [[''r'', ''a'', ''x''], [''r'', ''a-b''], [''r'', ''.cache'', ''repo'']]"
    by (simp add: walk_repos_Dir prune_def subdirs_def keep_name_def startswith_def
        get_git_repos_def example_tree_def)
  have g: "''.git'' \<in> set (map fst (subdirs ?es))"
    by (simp add: subdirs_def)
  from main g have w: "walk_repos True [''r'', ''a-b''] (Dir ?es) = [[''r'', ''a-b'']]"
    by blast
  have "[''r'', ''a-b''] \<in> set (get_git_repos [''r''] example_tree True)"
    by (simp add: t)
  with main have v: "\<not> startswith ''a-b'' ''.''"
    by fastforce
  have "[''r'', ''a-b''] \<in> set (get_git_repos [''r''] example_tree False)"
    by (simp add: f)
  moreover have "strict_prefix [''r'', ''a-b''] [''r'', ''a-b'', ''sub'']"
    by (simp add: strict_prefix_def)
  ultimately have n: "[''r'', ''a-b'', ''sub''] \<notin> set (get_git_repos [''r''] example_tree False)"
    using main' dn by blast
  from dn t f g w v n show ?thesis by (intro conjI)
qed

section \<open>The primary branch\<close>

lemma contains_set: "contains s sub \<Longrightarrow> set sub \<subseteq> set s"
proof (induction s)
  case Nil
  then show ?case by simp
next
  case (Cons c cs)
  from Cons.prems have "prefix sub (c # cs) \<or> contains cs sub"
    by (simp add: startswith_def)
  then show ?case
  proof
    assume "prefix sub (c # cs)"
    then show ?thesis by (rule set_mono_prefix)
  next
    assume "contains cs sub"
    then have "set sub \<subseteq> set cs" by (rule Cons.IH)
    then show ?thesis by auto
  qed
qed

lemma marker_has_colon: "contains line ''HEAD branch:'' \<Longrightarrow> CHR '':'' \<in> set line"
  using contains_set [of line "''HEAD branch:''"] by simp

lemma split_once_second:
  "sep \<in> set s \<Longrightarrow> py_index (split_once s sep) 1 = Inr (tl (dropWhile (\<lambda>c. c \<noteq> sep) s))"
  by (simp add: split_once_def py_index_def)

lemma after_first:
  "sep \<notin> set left \<Longrightarrow> tl (dropWhile (\<lambda>c. c \<noteq> sep) (left @ sep # right)) = right"
proof -
  assume "sep \<notin> set left"
  then have "dropWhile (\<lambda>c. c \<noteq> sep) left = []" by auto
  then show ?thesis by (simp add: dropWhile_append)
qed

lemma scan_head_branch_first:
  "\<forall>l \<in> set before. \<not> contains l ''HEAD branch:'' \<Longrightarrow> contains line ''HEAD branch:''
   \<Longrightarrow> line = left @ CHR '':'' # right \<Longrightarrow> CHR '':'' \<notin> set left
   \<Longrightarrow> scan_head_branch (before @ line # after) = Inr (Some (strip right))"
proof (induction before)
  case Nil
  have "CHR '':'' \<in> set line"
    using Nil(3) by simp
  then have "py_index (split_once line CHR '':'') 1
      = Inr (tl (dropWhile (\<lambda>c. c \<noteq> CHR '':'') line))"
    by (rule split_once_second)
  also have "tl (dropWhile (\<lambda>c. c \<noteq> CHR '':'') line) = right"
    unfolding Nil(3) using Nil(4) by (rule after_first)
  finally have "py_index (split_once line CHR '':'') 1 = Inr right" .
  with Nil(2) show ?case by simp
next
  case (Cons l before)
  then show ?case by simp
qed

lemma scan_head_branch_none:
  "\<forall>l \<in> set ls. \<not> contains l ''HEAD branch:'' \<Longrightarrow> scan_head_branch ls = Inr None"
  by (induction ls) simp_all

lemma scan_head_branch_some:
  "scan_head_branch ls = Inr (Some b) \<Longrightarrow> \<exists>l \<in> set ls. contains l ''HEAD branch:''"
  by (induction ls) (auto split: if_splits)

lemma scan_head_branch_no_error: "scan_head_branch ls \<noteq> Inl e"
proof (induction ls)
  case Nil
  show ?case by simp
next
  case (Cons l ls)
  show ?case
  proof (cases "contains l ''HEAD branch:''")
    case True
    then have "py_index (split_once l CHR '':'') 1
        = Inr (tl (dropWhile (\<lambda>c. c \<noteq> CHR '':'') l))"
      by (intro split_once_second marker_has_colon)
    with True show ?thesis by simp
  next
    case False
    with Cons show ?thesis by simp
  qed
qed

lemma truthy_run_git:
  "truthy (run_git run repo git args) \<longleftrightarrow>
     returncode (run (git_argv git repo args)) = 0
     \<and> strip (stdout (run (git_argv git repo args))) \<noteq> []"
  by (simp add: run_git_def Let_def)

lemma text_of_run_git:
  "returncode (run (git_argv git repo args)) = 0 \<Longrightarrow>
     text_of (run_git run repo git args) = strip (stdout (run (git_argv git repo args)))"
  by (simp add: run_git_def Let_def)

text \<open>The three ways out of \<^verbatim>\<open>get_primary_branch\<close>.\<close>

lemma primary_strategy1:
  "truthy (run_git run repo git [''symbolic-ref'', ''refs/remotes/origin/HEAD'']) \<Longrightarrow>
   get_primary_branch run repo git =
     (Inr (Some (removeprefix
        (text_of (run_git run repo git [''symbolic-ref'', ''refs/remotes/origin/HEAD'']))
        ''refs/remotes/origin/'')),
      [git_argv git repo [''symbolic-ref'', ''refs/remotes/origin/HEAD'']])"
  by (simp add: get_primary_branch_def Let_def)

lemma primary_strategy2:
  "\<not> truthy (run_git run repo git [''symbolic-ref'', ''refs/remotes/origin/HEAD'']) \<Longrightarrow>
   truthy (run_git run repo git [''remote'', ''show'', ''origin'']) \<Longrightarrow>
   scan_head_branch (splitlines (text_of (run_git run repo git [''remote'', ''show'', ''origin''])))
     = Inr (Some name) \<Longrightarrow>
   get_primary_branch run repo git =
     (Inr (Some name),
      [git_argv git repo [''symbolic-ref'', ''refs/remotes/origin/HEAD''],
       git_argv git repo [''remote'', ''show'', ''origin'']])"
  by (simp add: get_primary_branch_def Let_def)

lemma primary_strategy3:
  "\<not> truthy (run_git run repo git [''symbolic-ref'', ''refs/remotes/origin/HEAD'']) \<Longrightarrow>
   \<not> truthy (run_git run repo git [''remote'', ''show'', ''origin'']) \<or>
   scan_head_branch (splitlines (text_of (run_git run repo git [''remote'', ''show'', ''origin''])))
     = Inr None \<Longrightarrow>
   get_primary_branch run repo git =
     (Inr (fst (probe_branches run repo git [''main'', ''master''])),
      git_argv git repo [''symbolic-ref'', ''refs/remotes/origin/HEAD'']
        # git_argv git repo [''remote'', ''show'', ''origin'']
        # snd (probe_branches run repo git [''main'', ''master'']))"
  by (auto simp: get_primary_branch_def Let_def split: prod.splits)

lemma primary_no_error: "fst (get_primary_branch run repo git) \<noteq> Inl e"
proof (cases "truthy (run_git run repo git [''symbolic-ref'', ''refs/remotes/origin/HEAD''])")
  case True
  then show ?thesis by (simp add: primary_strategy1)
next
  case s1: False
  let ?scan = "scan_head_branch
    (splitlines (text_of (run_git run repo git [''remote'', ''show'', ''origin''])))"
  show ?thesis
  proof (cases "truthy (run_git run repo git [''remote'', ''show'', ''origin''])")
    case False
    with s1 show ?thesis by (simp add: primary_strategy3)
  next
    case True
    show ?thesis
    proof (cases ?scan)
      case (Inl e')
      then show ?thesis by (simp add: scan_head_branch_no_error)
    next
      case (Inr r)
      show ?thesis
      proof (cases r)
        case None
        with Inr s1 show ?thesis by (simp add: primary_strategy3)
      next
        case (Some name)
        with Inr s1 True show ?thesis by (simp add: primary_strategy2)
      qed
    qed
  qed
qed

lemma probe_main_master:
  "probe_branches run repo git [''main'', ''master''] =
     (if ref_verified run repo git ''main''
      then (Some ''main'', [git_argv git repo (show_ref_args ''main'')])
      else if ref_verified run repo git ''master''
      then (Some ''master'',
            [git_argv git repo (show_ref_args ''main''),
             git_argv git repo (show_ref_args ''master'')])
      else (None,
            [git_argv git repo (show_ref_args ''main''),
             git_argv git repo (show_ref_args ''master'')]))"
  by simp

text \<open>
  C1. When \<^verbatim>\<open>symbolic-ref refs/remotes/origin/HEAD\<close> exits with status 0 and its stripped
  output is not empty, \<^verbatim>\<open>get_primary_branch\<close> returns that output with
  \<^verbatim>\<open>refs/remotes/origin/\<close> removed from its front (the output itself when it does not
  start so), and this command is the only one run.
\<close>

theorem primary_from_origin_head:
  assumes "returncode (run (git_argv git repo [''symbolic-ref'', ''refs/remotes/origin/HEAD''])) = 0"
    and "strip (stdout (run (git_argv git repo [''symbolic-ref'', ''refs/remotes/origin/HEAD''])))
           = target"
    and "target \<noteq> []"
  shows "get_primary_branch run repo git =
           (Inr (Some (removeprefix target ''refs/remotes/origin/'')),
            [git_argv git repo [''symbolic-ref'', ''refs/remotes/origin/HEAD'']])
         \<and> (\<forall>name. target = ''refs/remotes/origin/'' @ name \<longrightarrow>
               fst (get_primary_branch run repo git) = Inr (Some name))
         \<and> (\<not> startswith target ''refs/remotes/origin/'' \<longrightarrow>
               fst (get_primary_branch run repo git) = Inr (Some target))"
proof -
  let ?args = "[''symbolic-ref'', ''refs/remotes/origin/HEAD'']"
  have t: "truthy (run_git run repo git ?args)"
    using assms by (simp add: truthy_run_git)
  have "text_of (run_git run repo git ?args) = target"
    using assms(1,2) by (simp add: text_of_run_git)
  with primary_strategy1 [OF t]
  have r: "get_primary_branch run repo git =
           (Inr (Some (removeprefix target ''refs/remotes/origin/'')), [git_argv git repo ?args])"
    by simp
  have "removeprefix (''refs/remotes/origin/'' @ name) ''refs/remotes/origin/'' = name" for name
    by (simp add: removeprefix_def startswith_def)
  moreover have "\<not> startswith target ''refs/remotes/origin/'' \<Longrightarrow>
      removeprefix target ''refs/remotes/origin/'' = target"
    by (simp add: removeprefix_def)
  ultimately show ?thesis
    using r by simp
qed

theorem primary_from_origin_head_witness:
  "returncode (run_origin_head (git_argv [''usr'', ''bin'', ''git''] [''home'', ''u'', ''proj'']
       [''symbolic-ref'', ''refs/remotes/origin/HEAD''])) = 0
   \<and> strip (stdout (run_origin_head (git_argv [''usr'', ''bin'', ''git''] [''home'', ''u'', ''proj'']
       [''symbolic-ref'', ''refs/remotes/origin/HEAD'']))) = ''refs/remotes/origin/develop''
   \<and> get_primary_branch run_origin_head [''home'', ''u'', ''proj''] [''usr'', ''bin'', ''git'']
       = (Inr (Some ''develop''),
          [[''/usr/bin/git'', ''-C'', ''/home/u/proj'', ''symbolic-ref'',
            ''refs/remotes/origin/HEAD'']])"
proof -
  let ?cmd = "git_argv [''usr'', ''bin'', ''git''] [''home'', ''u'', ''proj'']
       [''symbolic-ref'', ''refs/remotes/origin/HEAD'']"
  have rc: "returncode (run_origin_head ?cmd) = 0"
    by (simp add: run_origin_head_def git_argv_def)
  have out: "strip (stdout (run_origin_head ?cmd)) = ''refs/remotes/origin/develop''"
    by (simp add: run_origin_head_def git_argv_def strip_def is_space_def)
  have cmd: "?cmd = [''/usr/bin/git'', ''-C'', ''/home/u/proj'', ''symbolic-ref'',
            ''refs/remotes/origin/HEAD'']"
    by (simp add: git_argv_def as_posix_def path_str_def)
  have rp: "removeprefix ''refs/remotes/origin/develop'' ''refs/remotes/origin/'' = ''develop''"
    by (simp add: removeprefix_def startswith_def)
  from primary_from_origin_head [where run = run_origin_head
      and git = "[''usr'', ''bin'', ''git'']" and repo = "[''home'', ''u'', ''proj'']", OF rc out]
  have "get_primary_branch run_origin_head [''home'', ''u'', ''proj''] [''usr'', ''bin'', ''git'']
       = (Inr (Some ''develop''), [?cmd])"
    by (simp add: rp)
  with rc out cmd show ?thesis by simp
qed

lemma primary_winner_nonempty:
  assumes "get_primary_branch run repo git = (Inr (Some name), cmds)"
  shows "cmds \<noteq> [] \<and> (\<exists>args. last cmds = git_argv git repo args
            \<and> truthy (run_git run repo git args))"
proof (cases "truthy (run_git run repo git [''symbolic-ref'', ''refs/remotes/origin/HEAD''])")
  case True
  from primary_strategy1 [OF True] assms
  have "cmds = [git_argv git repo [''symbolic-ref'', ''refs/remotes/origin/HEAD'']]"
    by simp
  with True show ?thesis by auto
next
  case s1: False
  let ?out = "run_git run repo git [''remote'', ''show'', ''origin'']"
  let ?scan = "scan_head_branch (splitlines (text_of ?out))"
  show ?thesis
  proof (cases "truthy ?out \<and> ?scan \<noteq> Inr None")
    case True
    then obtain found where "?scan = Inr (Some found)"
      using scan_head_branch_no_error [of "splitlines (text_of ?out)"]
      by (cases ?scan) auto
    with True s1 have "get_primary_branch run repo git =
      (Inr (Some found),
       [git_argv git repo [''symbolic-ref'', ''refs/remotes/origin/HEAD''],
        git_argv git repo [''remote'', ''show'', ''origin'']])"
      by (simp add: primary_strategy2)
    with assms have "cmds = [git_argv git repo [''symbolic-ref'', ''refs/remotes/origin/HEAD''],
        git_argv git repo [''remote'', ''show'', ''origin'']]"
      by simp
    with True show ?thesis by auto
  next
    case False
    then have "\<not> truthy ?out \<or> ?scan = Inr None" by blast
    from primary_strategy3 [OF s1 this] assms
    have found: "fst (probe_branches run repo git [''main'', ''master'']) = Some name"
      and cmds: "cmds = git_argv git repo [''symbolic-ref'', ''refs/remotes/origin/HEAD'']
        # git_argv git repo [''remote'', ''show'', ''origin'']
        # snd (probe_branches run repo git [''main'', ''master''])"
      by simp_all
    show ?thesis
    proof (cases "ref_verified run repo git ''main''")
      case True
      with cmds have "last cmds = git_argv git repo (show_ref_args ''main'')"
        by (simp add: probe_main_master)
      with True show ?thesis unfolding ref_verified_def using cmds by blast
    next
      case m: False
      with found have v: "ref_verified run repo git ''master''"
        by (simp add: probe_main_master split: if_splits)
      with m cmds have "last cmds = git_argv git repo (show_ref_args ''master'')"
        by (simp add: probe_main_master)
      with v show ?thesis unfolding ref_verified_def using cmds by blast
    qed
  qed
qed

text \<open>
  C4, as amended. When the first strategy's command fails or prints nothing, and
  \<^verbatim>\<open>remote show origin\<close> exits with status 0 and its stripped output is not empty and
  has a line that contains \<^verbatim>\<open>HEAD branch:\<close>, \<^verbatim>\<open>get_primary_branch\<close> returns what follows
  the first colon of the first such line, stripped, after running these two commands
  only. A strategy wins only when its command exits with status 0 and prints text that
  is not empty once stripped: whenever \<^verbatim>\<open>get_primary_branch\<close> returns a name, the last
  command it ran, which is the command of the strategy that won, did so. The name the
  strategy cuts out of that text is not tested, and can be empty.
\<close>

theorem primary_from_remote_show:
  "(\<not> truthy (run_git run repo git [''symbolic-ref'', ''refs/remotes/origin/HEAD'']) \<and>
    returncode (run (git_argv git repo [''remote'', ''show'', ''origin''])) = 0 \<and>
    strip (stdout (run (git_argv git repo [''remote'', ''show'', ''origin'']))) = printed \<and>
    printed \<noteq> [] \<and>
    splitlines printed = before @ line # after \<and>
    (\<forall>l \<in> set before. \<not> contains l ''HEAD branch:'') \<and>
    contains line ''HEAD branch:''
    \<longrightarrow> (\<exists>left right. line = left @ CHR '':'' # right \<and> CHR '':'' \<notin> set left \<and>
          get_primary_branch run repo git =
            (Inr (Some (strip right)),
             [git_argv git repo [''symbolic-ref'', ''refs/remotes/origin/HEAD''],
              git_argv git repo [''remote'', ''show'', ''origin'']])))
   \<and> (\<forall>name cmds. get_primary_branch run repo git = (Inr (Some name), cmds) \<longrightarrow>
         cmds \<noteq> [] \<and>
         (\<exists>args. last cmds = git_argv git repo args \<and>
            returncode (run (git_argv git repo args)) = 0 \<and>
            strip (stdout (run (git_argv git repo args))) \<noteq> []))"
proof (intro conjI impI allI)
  let ?args = "[''remote'', ''show'', ''origin'']"
  assume a: "\<not> truthy (run_git run repo git [''symbolic-ref'', ''refs/remotes/origin/HEAD'']) \<and>
    returncode (run (git_argv git repo ?args)) = 0 \<and>
    strip (stdout (run (git_argv git repo ?args))) = printed \<and>
    printed \<noteq> [] \<and>
    splitlines printed = before @ line # after \<and>
    (\<forall>l \<in> set before. \<not> contains l ''HEAD branch:'') \<and>
    contains line ''HEAD branch:''"
  then have t: "truthy (run_git run repo git ?args)"
    by (simp add: truthy_run_git)
  from a have shown: "text_of (run_git run repo git ?args) = printed"
    by (simp add: text_of_run_git)
  from a have "CHR '':'' \<in> set line"
    by (simp add: marker_has_colon)
  then obtain left right where lr: "line = left @ CHR '':'' # right" "CHR '':'' \<notin> set left"
    by (blast dest: split_list_first)
  from a lr have "scan_head_branch (before @ line # after) = Inr (Some (strip right))"
    by (intro scan_head_branch_first) simp_all
  with a shown have "scan_head_branch (splitlines (text_of (run_git run repo git ?args)))
      = Inr (Some (strip right))"
    by simp
  with a t have "get_primary_branch run repo git =
            (Inr (Some (strip right)),
             [git_argv git repo [''symbolic-ref'', ''refs/remotes/origin/HEAD''],
              git_argv git repo ?args])"
    by (intro primary_strategy2) simp_all
  with lr show "\<exists>left right. line = left @ CHR '':'' # right \<and> CHR '':'' \<notin> set left \<and>
          get_primary_branch run repo git =
            (Inr (Some (strip right)),
             [git_argv git repo [''symbolic-ref'', ''refs/remotes/origin/HEAD''],
              git_argv git repo ?args])"
    by blast
next
  fix name cmds
  assume "get_primary_branch run repo git = (Inr (Some name), cmds)"
  then show "cmds \<noteq> []"
    by (simp add: primary_winner_nonempty)
next
  fix name cmds
  assume "get_primary_branch run repo git = (Inr (Some name), cmds)"
  from primary_winner_nonempty [OF this]
  show "\<exists>args. last cmds = git_argv git repo args \<and>
            returncode (run (git_argv git repo args)) = 0 \<and>
            strip (stdout (run (git_argv git repo args))) \<noteq> []"
    by (simp add: truthy_run_git)
qed

theorem primary_from_remote_show_witness:
  "\<not> truthy (run_git run_remote_show [''home'', ''u'', ''proj''] [''usr'', ''bin'', ''git'']
        [''symbolic-ref'', ''refs/remotes/origin/HEAD''])
   \<and> returncode (run_remote_show (git_argv [''usr'', ''bin'', ''git''] [''home'', ''u'', ''proj'']
        [''remote'', ''show'', ''origin''])) = 0
   \<and> strip (stdout (run_remote_show (git_argv [''usr'', ''bin'', ''git''] [''home'', ''u'', ''proj'']
        [''remote'', ''show'', ''origin''])))
       = ''* remote origin\<newline>  HEAD branch: trunk\<newline>  Remote branch:''
   \<and> splitlines ''* remote origin\<newline>  HEAD branch: trunk\<newline>  Remote branch:''
       = [''* remote origin''] @ ''  HEAD branch: trunk'' # [''  Remote branch:'']
   \<and> \<not> contains ''* remote origin'' ''HEAD branch:''
   \<and> contains ''  HEAD branch: trunk'' ''HEAD branch:''
   \<and> get_primary_branch run_remote_show [''home'', ''u'', ''proj''] [''usr'', ''bin'', ''git'']
       = (Inr (Some ''trunk''),
          [[''/usr/bin/git'', ''-C'', ''/home/u/proj'', ''symbolic-ref'',
            ''refs/remotes/origin/HEAD''],
           [''/usr/bin/git'', ''-C'', ''/home/u/proj'', ''remote'', ''show'', ''origin'']])"
proof -
  let ?git = "[''usr'', ''bin'', ''git'']" and ?repo = "[''home'', ''u'', ''proj'']"
  let ?out = "''* remote origin\<newline>  HEAD branch: trunk\<newline>  Remote branch:''"
  let ?line = "''  HEAD branch: trunk''"
  have s1: "\<not> truthy (run_git run_remote_show ?repo ?git
        [''symbolic-ref'', ''refs/remotes/origin/HEAD''])"
    by (simp add: run_git_def run_remote_show_def git_argv_def failed_def)
  have rc: "returncode (run_remote_show (git_argv ?git ?repo [''remote'', ''show'', ''origin''])) = 0"
    by (simp add: run_remote_show_def git_argv_def)
  have out: "strip (stdout (run_remote_show (git_argv ?git ?repo [''remote'', ''show'', ''origin''])))
      = ?out"
    by (simp add: run_remote_show_def git_argv_def strip_def is_space_def)
  have ls: "splitlines ?out = [''* remote origin''] @ ?line # [''  Remote branch:'']"
    by (simp add: splitlines_def is_linebreak_def)
  have b: "\<not> contains ''* remote origin'' ''HEAD branch:''"
    by (simp add: startswith_def)
  have m: "contains ?line ''HEAD branch:''"
    by (simp add: startswith_def)
  have cmds: "git_argv ?git ?repo [''symbolic-ref'', ''refs/remotes/origin/HEAD'']
      = [''/usr/bin/git'', ''-C'', ''/home/u/proj'', ''symbolic-ref'', ''refs/remotes/origin/HEAD'']"
    "git_argv ?git ?repo [''remote'', ''show'', ''origin'']
      = [''/usr/bin/git'', ''-C'', ''/home/u/proj'', ''remote'', ''show'', ''origin'']"
    by (simp_all add: git_argv_def as_posix_def path_str_def)
  from primary_from_remote_show [where run = run_remote_show and repo = ?repo and git = ?git
      and printed = ?out and before = "[''* remote origin'']" and line = ?line
      and after = "[''  Remote branch:'']"] s1 rc out ls b m
  obtain left right where lr: "?line = left @ CHR '':'' # right" "CHR '':'' \<notin> set left"
    and r: "get_primary_branch run_remote_show ?repo ?git =
            (Inr (Some (strip right)),
             [git_argv ?git ?repo [''symbolic-ref'', ''refs/remotes/origin/HEAD''],
              git_argv ?git ?repo [''remote'', ''show'', ''origin'']])"
    by auto
  have "right = tl (dropWhile (\<lambda>c. c \<noteq> CHR '':'') ?line)"
    unfolding lr(1) using lr(2) by (simp add: after_first)
  then have "right = '' trunk''" by simp
  then have "strip right = ''trunk''"
    by (simp add: strip_def is_space_def)
  with r cmds have "get_primary_branch run_remote_show ?repo ?git =
       (Inr (Some ''trunk''),
          [[''/usr/bin/git'', ''-C'', ''/home/u/proj'', ''symbolic-ref'',
            ''refs/remotes/origin/HEAD''],
           [''/usr/bin/git'', ''-C'', ''/home/u/proj'', ''remote'', ''show'', ''origin'']])"
    by simp
  with s1 rc out ls b m show ?thesis by (intro conjI)
qed

text \<open>
  The claim as stated lets a strategy win only with a result that is not empty. A
  \<^verbatim>\<open>remote show origin\<close> that prints \<^verbatim>\<open>HEAD branch:\<close> with nothing after the colon wins
  with the empty name, although the probe of \<^verbatim>\<open>main\<close> after it would verify; and a
  \<^verbatim>\<open>symbolic-ref\<close> that prints \<^verbatim>\<open>refs/remotes/origin/\<close> alone wins with the empty name.
\<close>

theorem primary_empty_name_counterexample:
  "get_primary_branch run_head_blank [''home'', ''u'', ''proj''] [''usr'', ''bin'', ''git'']
     = (Inr (Some []),
        [[''/usr/bin/git'', ''-C'', ''/home/u/proj'', ''symbolic-ref'',
          ''refs/remotes/origin/HEAD''],
         [''/usr/bin/git'', ''-C'', ''/home/u/proj'', ''remote'', ''show'', ''origin'']])
   \<and> ref_verified run_head_blank [''home'', ''u'', ''proj''] [''usr'', ''bin'', ''git''] ''main''
   \<and> get_primary_branch run_origin_blank [''home'', ''u'', ''proj''] [''usr'', ''bin'', ''git'']
     = (Inr (Some []),
        [[''/usr/bin/git'', ''-C'', ''/home/u/proj'', ''symbolic-ref'',
          ''refs/remotes/origin/HEAD'']])"
proof -
  let ?git = "[''usr'', ''bin'', ''git'']" and ?repo = "[''home'', ''u'', ''proj'']"
  have cmds: "git_argv ?git ?repo args = ''/usr/bin/git'' # ''-C'' # ''/home/u/proj'' # args"
    for args
    by (simp add: git_argv_def as_posix_def path_str_def)
  have s1: "\<not> truthy (run_git run_head_blank ?repo ?git
      [''symbolic-ref'', ''refs/remotes/origin/HEAD''])"
    by (simp add: run_git_def run_head_blank_def git_argv_def failed_def)
  have out: "run_git run_head_blank ?repo ?git [''remote'', ''show'', ''origin'']
      = Some ''* remote origin\<newline>  HEAD branch:''"
    by (simp add: run_git_def run_head_blank_def git_argv_def strip_def is_space_def)
  have ls: "splitlines ''* remote origin\<newline>  HEAD branch:''
      = [''* remote origin'', ''  HEAD branch:'']"
    by (simp add: splitlines_def is_linebreak_def)
  have nb: "\<forall>l \<in> set [''* remote origin'']. \<not> contains l ''HEAD branch:''"
    by (simp add: startswith_def)
  have m: "contains ''  HEAD branch:'' ''HEAD branch:''"
    by (simp add: startswith_def)
  have "scan_head_branch ([''* remote origin''] @ ''  HEAD branch:'' # [])
      = Inr (Some (strip []))"
    by (rule scan_head_branch_first [OF nb m, where left = "''  HEAD branch''"]) simp_all
  then have sc: "scan_head_branch [''* remote origin'', ''  HEAD branch:''] = Inr (Some [])"
    by (simp add: strip_def)
  have a: "get_primary_branch run_head_blank ?repo ?git
     = (Inr (Some []),
        [git_argv ?git ?repo [''symbolic-ref'', ''refs/remotes/origin/HEAD''],
         git_argv ?git ?repo [''remote'', ''show'', ''origin'']])"
  proof (rule primary_strategy2 [OF s1])
    show "truthy (run_git run_head_blank ?repo ?git [''remote'', ''show'', ''origin''])"
      by (simp add: out)
    show "scan_head_branch (splitlines (text_of
        (run_git run_head_blank ?repo ?git [''remote'', ''show'', ''origin'']))) = Inr (Some [])"
      unfolding out text_of.simps ls by (rule sc)
  qed
  have b: "ref_verified run_head_blank ?repo ?git ''main''"
    by (simp add: ref_verified_def show_ref_args_def run_git_def run_head_blank_def
        git_argv_def strip_def is_space_def)
  have t: "run_git run_origin_blank ?repo ?git [''symbolic-ref'', ''refs/remotes/origin/HEAD'']
      = Some ''refs/remotes/origin/''"
    by (simp add: run_git_def run_origin_blank_def git_argv_def strip_def is_space_def)
  have "truthy (run_git run_origin_blank ?repo ?git
      [''symbolic-ref'', ''refs/remotes/origin/HEAD''])"
    by (simp add: t)
  from primary_strategy1 [OF this]
  have c: "get_primary_branch run_origin_blank ?repo ?git
     = (Inr (Some []),
        [git_argv ?git ?repo [''symbolic-ref'', ''refs/remotes/origin/HEAD'']])"
    by (simp add: t removeprefix_def startswith_def)
  from a b c show ?thesis
    by (simp only: cmds simp_thms)
qed

text \<open>When the output of its commands decodes, the report of one repository raises nothing.\<close>

lemma display_path_eq:
  "display_path home repo =
     Inr (if prefix home repo then ''~/'' @ rel_str (drop (length home) repo) else path_str repo)"
  by (simp add: display_path_def relative_to_def)

lemma report_repo_eq:
  "fst (get_primary_branch run repo git) = Inr primary \<Longrightarrow>
   display_path home repo = Inr shown \<Longrightarrow>
   report_repo run home git repo =
     Inr (if [b \<leftarrow> get_repo_branches run repo git. Some b \<noteq> primary] = [] then []
          else repo_block shown [b \<leftarrow> get_repo_branches run repo git. Some b \<noteq> primary])"
  by (simp add: report_repo_def Let_def)

lemma report_repo_no_error: "report_repo run home git repo \<noteq> Inl e"
proof -
  obtain primary where p: "fst (get_primary_branch run repo git) = Inr primary"
    using primary_no_error [of run repo git] by (cases "fst (get_primary_branch run repo git)") auto
  obtain shown where s: "display_path home repo = Inr shown"
    by (simp add: display_path_eq)
  show ?thesis
    by (simp add: report_repo_eq [OF p s])
qed

text \<open>
  C5. When neither remote strategy gives a result (the first command fails or prints
  nothing; the second fails, prints nothing, or prints no line with the marker),
  \<^verbatim>\<open>get_primary_branch\<close> runs \<^verbatim>\<open>show-ref --verify\<close> for \<^verbatim>\<open>main\<close> and then, only if that does
  not verify, for \<^verbatim>\<open>master\<close>, and returns the first name that verifies. A name verifies
  when the command exits with status 0 and prints something, as git does for a ref that
  exists. When neither verifies the result is \<^verbatim>\<open>None\<close>, a value and not an exception,
  and the report for the repository goes on without an exception.
\<close>

theorem primary_from_local_names:
  "\<not> truthy (run_git run repo git [''symbolic-ref'', ''refs/remotes/origin/HEAD'']) \<and>
   (\<not> truthy (run_git run repo git [''remote'', ''show'', ''origin'']) \<or>
    (\<forall>l \<in> set (splitlines (text_of (run_git run repo git [''remote'', ''show'', ''origin'']))).
       \<not> contains l ''HEAD branch:''))
   \<longrightarrow>
     (ref_verified run repo git ''main'' \<longrightarrow>
        get_primary_branch run repo git =
          (Inr (Some ''main''),
           [git_argv git repo [''symbolic-ref'', ''refs/remotes/origin/HEAD''],
            git_argv git repo [''remote'', ''show'', ''origin''],
            git_argv git repo [''show-ref'', ''--verify'', ''refs/heads/main'']]))
   \<and> (\<not> ref_verified run repo git ''main'' \<and> ref_verified run repo git ''master'' \<longrightarrow>
        get_primary_branch run repo git =
          (Inr (Some ''master''),
           [git_argv git repo [''symbolic-ref'', ''refs/remotes/origin/HEAD''],
            git_argv git repo [''remote'', ''show'', ''origin''],
            git_argv git repo [''show-ref'', ''--verify'', ''refs/heads/main''],
            git_argv git repo [''show-ref'', ''--verify'', ''refs/heads/master'']]))
   \<and> (\<not> ref_verified run repo git ''main'' \<and> \<not> ref_verified run repo git ''master'' \<longrightarrow>
        get_primary_branch run repo git =
          (Inr None,
           [git_argv git repo [''symbolic-ref'', ''refs/remotes/origin/HEAD''],
            git_argv git repo [''remote'', ''show'', ''origin''],
            git_argv git repo [''show-ref'', ''--verify'', ''refs/heads/main''],
            git_argv git repo [''show-ref'', ''--verify'', ''refs/heads/master'']])
        \<and> (\<exists>printed. report_repo run home git repo = Inr printed))"
proof (intro impI)
  let ?out = "run_git run repo git [''remote'', ''show'', ''origin'']"
  assume a: "\<not> truthy (run_git run repo git [''symbolic-ref'', ''refs/remotes/origin/HEAD'']) \<and>
   (\<not> truthy ?out \<or> (\<forall>l \<in> set (splitlines (text_of ?out)). \<not> contains l ''HEAD branch:''))"
  then have "\<not> truthy ?out \<or> scan_head_branch (splitlines (text_of ?out)) = Inr None"
    by (auto simp: scan_head_branch_none)
  with a have r: "get_primary_branch run repo git =
     (Inr (fst (probe_branches run repo git [''main'', ''master''])),
      git_argv git repo [''symbolic-ref'', ''refs/remotes/origin/HEAD'']
        # git_argv git repo [''remote'', ''show'', ''origin'']
        # snd (probe_branches run repo git [''main'', ''master'']))"
    by (intro primary_strategy3) simp_all
  have ne: "\<exists>printed. report_repo run home git repo = Inr printed"
    using report_repo_no_error [of run home git repo]
    by (cases "report_repo run home git repo") auto
  show "(ref_verified run repo git ''main'' \<longrightarrow>
        get_primary_branch run repo git =
          (Inr (Some ''main''),
           [git_argv git repo [''symbolic-ref'', ''refs/remotes/origin/HEAD''],
            git_argv git repo [''remote'', ''show'', ''origin''],
            git_argv git repo [''show-ref'', ''--verify'', ''refs/heads/main'']]))
   \<and> (\<not> ref_verified run repo git ''main'' \<and> ref_verified run repo git ''master'' \<longrightarrow>
        get_primary_branch run repo git =
          (Inr (Some ''master''),
           [git_argv git repo [''symbolic-ref'', ''refs/remotes/origin/HEAD''],
            git_argv git repo [''remote'', ''show'', ''origin''],
            git_argv git repo [''show-ref'', ''--verify'', ''refs/heads/main''],
            git_argv git repo [''show-ref'', ''--verify'', ''refs/heads/master'']]))
   \<and> (\<not> ref_verified run repo git ''main'' \<and> \<not> ref_verified run repo git ''master'' \<longrightarrow>
        get_primary_branch run repo git =
          (Inr None,
           [git_argv git repo [''symbolic-ref'', ''refs/remotes/origin/HEAD''],
            git_argv git repo [''remote'', ''show'', ''origin''],
            git_argv git repo [''show-ref'', ''--verify'', ''refs/heads/main''],
            git_argv git repo [''show-ref'', ''--verify'', ''refs/heads/master'']])
        \<and> (\<exists>printed. report_repo run home git repo = Inr printed))"
    using ne by (simp add: r probe_main_master show_ref_args_def)
qed

theorem primary_from_local_names_witness:
  "\<not> truthy (run_git run_local [''home'', ''u'', ''proj''] [''usr'', ''bin'', ''git'']
        [''symbolic-ref'', ''refs/remotes/origin/HEAD''])
   \<and> \<not> truthy (run_git run_local [''home'', ''u'', ''proj''] [''usr'', ''bin'', ''git'']
        [''remote'', ''show'', ''origin''])
   \<and> \<not> ref_verified run_local [''home'', ''u'', ''proj''] [''usr'', ''bin'', ''git''] ''main''
   \<and> ref_verified run_local [''home'', ''u'', ''proj''] [''usr'', ''bin'', ''git''] ''master''
   \<and> get_primary_branch run_local [''home'', ''u'', ''proj''] [''usr'', ''bin'', ''git'']
       = (Inr (Some ''master''),
          [[''/usr/bin/git'', ''-C'', ''/home/u/proj'', ''symbolic-ref'',
            ''refs/remotes/origin/HEAD''],
           [''/usr/bin/git'', ''-C'', ''/home/u/proj'', ''remote'', ''show'', ''origin''],
           [''/usr/bin/git'', ''-C'', ''/home/u/proj'', ''show-ref'', ''--verify'',
            ''refs/heads/main''],
           [''/usr/bin/git'', ''-C'', ''/home/u/proj'', ''show-ref'', ''--verify'',
            ''refs/heads/master'']])
   \<and> \<not> ref_verified run_nothing [''home'', ''u'', ''proj''] [''usr'', ''bin'', ''git''] ''main''
   \<and> \<not> ref_verified run_nothing [''home'', ''u'', ''proj''] [''usr'', ''bin'', ''git''] ''master''
   \<and> fst (get_primary_branch run_nothing [''home'', ''u'', ''proj''] [''usr'', ''bin'', ''git''])
       = Inr None"
proof -
  let ?git = "[''usr'', ''bin'', ''git'']" and ?repo = "[''home'', ''u'', ''proj'']"
  let ?none = run_nothing
  have s1: "\<not> truthy (run_git run_local ?repo ?git [''symbolic-ref'', ''refs/remotes/origin/HEAD''])"
    by (simp add: run_git_def run_local_def git_argv_def failed_def)
  have s2: "\<not> truthy (run_git run_local ?repo ?git [''remote'', ''show'', ''origin''])"
    by (simp add: run_git_def run_local_def git_argv_def failed_def)
  have m: "\<not> ref_verified run_local ?repo ?git ''main''"
    by (simp add: ref_verified_def show_ref_args_def run_git_def run_local_def git_argv_def
        failed_def)
  have ms: "ref_verified run_local ?repo ?git ''master''"
    by (simp add: ref_verified_def show_ref_args_def run_git_def run_local_def git_argv_def
        strip_def is_space_def)
  have cmds: "git_argv ?git ?repo args = ''/usr/bin/git'' # ''-C'' # ''/home/u/proj'' # args" for args
    by (simp add: git_argv_def as_posix_def path_str_def)
  from primary_from_local_names [where run = run_local and repo = ?repo and git = ?git
      and home = "[''home'', ''u'']"] s1 s2 m ms
  have r: "get_primary_branch run_local ?repo ?git
       = (Inr (Some ''master''),
          [[''/usr/bin/git'', ''-C'', ''/home/u/proj'', ''symbolic-ref'',
            ''refs/remotes/origin/HEAD''],
           [''/usr/bin/git'', ''-C'', ''/home/u/proj'', ''remote'', ''show'', ''origin''],
           [''/usr/bin/git'', ''-C'', ''/home/u/proj'', ''show-ref'', ''--verify'',
            ''refs/heads/main''],
           [''/usr/bin/git'', ''-C'', ''/home/u/proj'', ''show-ref'', ''--verify'',
            ''refs/heads/master'']])"
    by (simp add: cmds)
  have n: "\<not> truthy (run_git ?none ?repo ?git args)" for args
    by (simp add: run_git_def run_nothing_def failed_def)
  have nv: "\<not> ref_verified ?none ?repo ?git b" for b
    by (simp add: ref_verified_def n)
  from primary_from_local_names [where run = ?none and repo = ?repo and git = ?git
      and home = "[''home'', ''u'']"] n nv
  have a: "fst (get_primary_branch ?none ?repo ?git) = Inr None"
    by simp
  from s1 s2 m ms r nv a show ?thesis by (intro conjI)
qed

section \<open>The report\<close>

lemma path_str_below:
  assumes "home \<noteq> []" "rel \<noteq> []"
  shows "path_str (home @ rel) = path_str home @ ''/'' @ rel_str rel"
proof -
  obtain c cs where rel: "rel = c # cs"
    using assms(2) by (cases rel) auto
  have "concat (map (\<lambda>c. CHR ''/'' # c) rel) = CHR ''/'' # rel_str rel"
    by (simp add: rel rel_str_def)
  with assms show ?thesis
    by (simp add: path_str_def)
qed

text \<open>The example repository with a local \<^verbatim>\<open>master\<close>, evaluated.\<close>

lemma branches_run_local:
  "get_repo_branches run_local repo [''usr'', ''bin'', ''git''] = [''master'', ''feature/x'', ''bugfix'']"
  by (simp add: get_repo_branches_def run_local_def git_argv_def strip_def is_space_def
      splitlines_def is_linebreak_def)

lemma primary_run_local:
  "fst (get_primary_branch run_local repo [''usr'', ''bin'', ''git'']) = Inr (Some ''master'')"
proof -
  have f: "\<not> truthy (run_git run_local repo [''usr'', ''bin'', ''git''] args)"
    if "args \<noteq> [''show-ref'', ''--verify'', ''refs/heads/master'']"
      "args \<noteq> [''branch'', ''--format=%(refname:short)'']" for args
    using that by (simp add: run_git_def run_local_def git_argv_def failed_def)
  have m: "\<not> ref_verified run_local repo [''usr'', ''bin'', ''git''] ''main''"
    unfolding ref_verified_def show_ref_args_def by (rule f) simp_all
  have ms: "ref_verified run_local repo [''usr'', ''bin'', ''git''] ''master''"
    by (simp add: ref_verified_def show_ref_args_def run_git_def run_local_def git_argv_def
        strip_def is_space_def)
  have "get_primary_branch run_local repo [''usr'', ''bin'', ''git''] =
     (Inr (fst (probe_branches run_local repo [''usr'', ''bin'', ''git''] [''main'', ''master''])),
      git_argv [''usr'', ''bin'', ''git''] repo [''symbolic-ref'', ''refs/remotes/origin/HEAD'']
        # git_argv [''usr'', ''bin'', ''git''] repo [''remote'', ''show'', ''origin'']
        # snd (probe_branches run_local repo [''usr'', ''bin'', ''git''] [''main'', ''master'']))"
    by (rule primary_strategy3) (simp_all add: f)
  with m ms show ?thesis
    by (simp add: probe_main_master)
qed

lemma report_run_local:
  "report_repo run_local [''home'', ''u''] [''usr'', ''bin'', ''git''] [''home'', ''u'', ''proj'']
     = Inr [Styled ''=== ~/proj ==='' BRIGHT_CYAN, Styled ''* feature/x'' YELLOW,
            Styled ''* bugfix'' YELLOW, Blank]"
proof -
  have d: "display_path [''home'', ''u''] [''home'', ''u'', ''proj''] = Inr ''~/proj''"
    by (simp add: display_path_eq rel_str_def)
  show ?thesis
    by (simp add: report_repo_eq [OF primary_run_local d] branches_run_local repo_block_def)
qed

text \<open>
  C8, as amended. The display path is always computed, with no exception. For a
  repository strictly below the home directory it is \<^verbatim>\<open>~/\<close> followed by the path relative
  to home. For the home directory itself \<^verbatim>\<open>relative_to\<close> raises nothing and returns the
  empty relative path, so the display path is \<^verbatim>\<open>~/.\<close> and not the absolute path. For
  any other repository \<^verbatim>\<open>relative_to\<close> raises \<^verbatim>\<open>ValueError\<close> and the display path is the
  absolute path. The header printed for a repository is built from this display path.
\<close>

theorem display_path_total:
  "(\<exists>shown. display_path home repo_path = Inr shown)
   \<and> (strict_prefix home repo_path \<longrightarrow>
        display_path home repo_path = Inr (''~/'' @ rel_str (drop (length home) repo_path))
        \<and> (home \<noteq> [] \<longrightarrow>
             path_str repo_path
               = path_str home @ ''/'' @ rel_str (drop (length home) repo_path)))
   \<and> (repo_path = home \<longrightarrow> display_path home repo_path = Inr ''~/.'')
   \<and> (\<not> prefix home repo_path \<longrightarrow>
        relative_to repo_path home = Inl ValueError
        \<and> display_path home repo_path = Inr (path_str repo_path))
   \<and> (\<forall>printed shown. report_repo run home git_path repo_path = Inr printed
         \<and> display_path home repo_path = Inr shown \<and> printed \<noteq> []
         \<longrightarrow> hd printed = Styled (''=== '' @ shown @ '' ==='') BRIGHT_CYAN)"
proof (intro conjI impI allI)
  show "\<exists>shown. display_path home repo_path = Inr shown"
    by (simp add: display_path_eq)
next
  assume "strict_prefix home repo_path"
  then show "display_path home repo_path = Inr (''~/'' @ rel_str (drop (length home) repo_path))"
    by (simp add: display_path_eq strict_prefix_def)
next
  assume sp: "strict_prefix home repo_path" and "home \<noteq> []"
  from sp obtain rel where "repo_path = home @ rel" "rel \<noteq> []"
    by (auto simp: strict_prefix_def prefix_def)
  with \<open>home \<noteq> []\<close>
  show "path_str repo_path = path_str home @ ''/'' @ rel_str (drop (length home) repo_path)"
    by (simp add: path_str_below)
next
  assume "repo_path = home"
  then show "display_path home repo_path = Inr ''~/.''"
    by (simp add: display_path_eq rel_str_def)
next
  assume "\<not> prefix home repo_path"
  then show "relative_to repo_path home = Inl ValueError"
    by (simp add: relative_to_def)
next
  assume "\<not> prefix home repo_path"
  then show "display_path home repo_path = Inr (path_str repo_path)"
    by (simp add: display_path_eq)
next
  fix printed shown
  assume a: "report_repo run home git_path repo_path = Inr printed
         \<and> display_path home repo_path = Inr shown \<and> printed \<noteq> []"
  obtain primary where p: "fst (get_primary_branch run repo_path git_path) = Inr primary"
    using primary_no_error [of run repo_path git_path]
    by (cases "fst (get_primary_branch run repo_path git_path)") auto
  from a have s: "display_path home repo_path = Inr shown" by simp
  from a show "hd printed = Styled (''=== '' @ shown @ '' ==='') BRIGHT_CYAN"
    unfolding report_repo_eq [OF p s] by (auto simp: repo_block_def split: if_splits)
qed

text \<open>
  The claim as stated counts the home directory being the repository root among the
  relativisation errors that fall back to the absolute path. For the home directory
  \<^verbatim>\<open>/home/u\<close> the header shows \<^verbatim>\<open>~/.\<close>, not \<^verbatim>\<open>/home/u\<close>.
\<close>

theorem display_path_home_counterexample:
  "display_path [''home'', ''u''] [''home'', ''u''] = Inr ''~/.''
   \<and> display_path [''home'', ''u''] [''home'', ''u''] \<noteq> Inr (path_str [''home'', ''u''])"
  by (simp add: display_path_eq rel_str_def path_str_def)

theorem display_path_total_witness:
  "strict_prefix [''home'', ''u''] [''home'', ''u'', ''proj'']
   \<and> display_path [''home'', ''u''] [''home'', ''u'', ''proj''] = Inr ''~/proj''
   \<and> path_str [''home'', ''u'', ''proj''] = path_str [''home'', ''u''] @ ''/'' @ ''proj''
   \<and> display_path [''home'', ''u''] [''home'', ''u''] = Inr ''~/.''
   \<and> \<not> prefix [''home'', ''u''] [''srv'', ''git'', ''proj'']
   \<and> display_path [''home'', ''u''] [''srv'', ''git'', ''proj''] = Inr ''/srv/git/proj''
   \<and> report_repo run_local [''home'', ''u''] [''usr'', ''bin'', ''git''] [''home'', ''u'', ''proj'']
       = Inr [Styled ''=== ~/proj ==='' BRIGHT_CYAN, Styled ''* feature/x'' YELLOW,
              Styled ''* bugfix'' YELLOW, Blank]"
proof -
  let ?home = "[''home'', ''u'']"
  note t1 = display_path_total [where home = ?home and repo_path = "[''home'', ''u'', ''proj'']"
      and run = run_local and git_path = "[''usr'', ''bin'', ''git'']"]
  note t2 = display_path_total [where home = ?home and repo_path = ?home
      and run = run_local and git_path = "[''usr'', ''bin'', ''git'']"]
  note t3 = display_path_total [where home = ?home and repo_path = "[''srv'', ''git'', ''proj'']"
      and run = run_local and git_path = "[''usr'', ''bin'', ''git'']"]
  have sp: "strict_prefix ?home [''home'', ''u'', ''proj'']"
    by (simp add: strict_prefix_def)
  from t1 sp have a: "display_path ?home [''home'', ''u'', ''proj''] = Inr ''~/proj''"
    and b: "path_str [''home'', ''u'', ''proj''] = path_str ?home @ ''/'' @ ''proj''"
    by (simp_all add: rel_str_def)
  from t2 have c: "display_path ?home ?home = Inr ''~/.''"
    by simp
  have np: "\<not> prefix ?home [''srv'', ''git'', ''proj'']"
    by simp
  with t3 have d: "display_path ?home [''srv'', ''git'', ''proj''] = Inr ''/srv/git/proj''"
    by (simp add: path_str_def)
  note e = report_run_local
  from sp a b c np d e show ?thesis by (intro conjI)
qed

text \<open>
  When the output of every command decodes, the loop raises nothing and prints what each
  repository prints, in order.
\<close>

lemma report_loop_eq:
  "report_loop run home git repos =
     (concat (map (\<lambda>r. case report_repo run home git r of Inr printed \<Rightarrow> printed | Inl e \<Rightarrow> [])
                repos), None)"
proof (induction repos)
  case Nil
  show ?case by simp
next
  case (Cons r repos)
  obtain printed where "report_repo run home git r = Inr printed"
    using report_repo_no_error [of run home git r]
    by (cases "report_repo run home git r") auto
  with Cons show ?case by simp
qed

text \<open>The example repository with no primary branch, evaluated.\<close>

lemma primary_listing_only:
  "get_primary_branch run_listing_only repo git =
     (Inr None,
      [git_argv git repo [''symbolic-ref'', ''refs/remotes/origin/HEAD''],
       git_argv git repo [''remote'', ''show'', ''origin''],
       git_argv git repo [''show-ref'', ''--verify'', ''refs/heads/main''],
       git_argv git repo [''show-ref'', ''--verify'', ''refs/heads/master'']])"
proof -
  have f: "\<not> truthy (run_git run_listing_only repo git args)"
    if "args \<noteq> [''branch'', ''--format=%(refname:short)'']" for args
    using that by (simp add: run_git_def run_listing_only_def git_argv_def failed_def)
  have v: "\<not> ref_verified run_listing_only repo git b" for b
    unfolding ref_verified_def show_ref_args_def by (rule f) simp
  have "get_primary_branch run_listing_only repo git =
     (Inr (fst (probe_branches run_listing_only repo git [''main'', ''master''])),
      git_argv git repo [''symbolic-ref'', ''refs/remotes/origin/HEAD'']
        # git_argv git repo [''remote'', ''show'', ''origin'']
        # snd (probe_branches run_listing_only repo git [''main'', ''master'']))"
    by (rule primary_strategy3) (simp_all add: f)
  then show ?thesis
    by (simp add: probe_main_master v show_ref_args_def)
qed

lemma branches_listing_only:
  "get_repo_branches run_listing_only repo git = [''topic'']"
  by (simp add: get_repo_branches_def run_listing_only_def git_argv_def strip_def is_space_def
      splitlines_def is_linebreak_def)

text \<open>
  C2. For one repository the report never raises; it prints nothing when no listed branch
  differs from the resolved primary branch, and otherwise the header, one line for each
  listed branch that differs from the primary branch, in the order of the listing, and
  the blank line. The comparison is equality of strings. When the primary branch is
  \<^verbatim>\<open>None\<close> every listed branch is kept.
\<close>

theorem report_keeps_non_primary:
  "\<exists>primary shown.
      fst (get_primary_branch run repo_path git_path) = Inr primary
    \<and> display_path home repo_path = Inr shown
    \<and> report_repo run home git_path repo_path =
        Inr (if [b \<leftarrow> get_repo_branches run repo_path git_path. Some b \<noteq> primary] = [] then []
             else Styled (''=== '' @ shown @ '' ==='') BRIGHT_CYAN
                  # map (\<lambda>b. Styled (''* '' @ b) YELLOW)
                      [b \<leftarrow> get_repo_branches run repo_path git_path. Some b \<noteq> primary]
                  @ [Blank])
    \<and> (primary = None \<longrightarrow>
         [b \<leftarrow> get_repo_branches run repo_path git_path. Some b \<noteq> primary]
           = get_repo_branches run repo_path git_path)
    \<and> (\<forall>name. primary = Some name \<longrightarrow>
         [b \<leftarrow> get_repo_branches run repo_path git_path. Some b \<noteq> primary]
           = [b \<leftarrow> get_repo_branches run repo_path git_path. b \<noteq> name])"
proof -
  obtain primary where p: "fst (get_primary_branch run repo_path git_path) = Inr primary"
    using primary_no_error [of run repo_path git_path]
    by (cases "fst (get_primary_branch run repo_path git_path)") auto
  obtain shown where s: "display_path home repo_path = Inr shown"
    by (simp add: display_path_eq)
  have "report_repo run home git_path repo_path =
        Inr (if [b \<leftarrow> get_repo_branches run repo_path git_path. Some b \<noteq> primary] = [] then []
             else Styled (''=== '' @ shown @ '' ==='') BRIGHT_CYAN
                  # map (\<lambda>b. Styled (''* '' @ b) YELLOW)
                      [b \<leftarrow> get_repo_branches run repo_path git_path. Some b \<noteq> primary]
                  @ [Blank])"
    unfolding report_repo_eq [OF p s] repo_block_def ..
  moreover have "primary = None \<longrightarrow>
         [b \<leftarrow> get_repo_branches run repo_path git_path. Some b \<noteq> primary]
           = get_repo_branches run repo_path git_path"
    by simp
  moreover have "\<forall>name. primary = Some name \<longrightarrow>
         [b \<leftarrow> get_repo_branches run repo_path git_path. Some b \<noteq> primary]
           = [b \<leftarrow> get_repo_branches run repo_path git_path. b \<noteq> name]"
    by simp
  ultimately show ?thesis
    using p s by blast
qed

theorem report_keeps_non_primary_witness:
  "get_repo_branches run_local [''home'', ''u'', ''proj''] [''usr'', ''bin'', ''git'']
     = [''master'', ''feature/x'', ''bugfix'']
   \<and> fst (get_primary_branch run_local [''home'', ''u'', ''proj''] [''usr'', ''bin'', ''git''])
     = Inr (Some ''master'')
   \<and> report_repo run_local [''home'', ''u''] [''usr'', ''bin'', ''git''] [''home'', ''u'', ''proj'']
     = Inr [Styled ''=== ~/proj ==='' BRIGHT_CYAN, Styled ''* feature/x'' YELLOW,
            Styled ''* bugfix'' YELLOW, Blank]
   \<and> get_repo_branches run_listing_only [''home'', ''u'', ''proj''] [''usr'', ''bin'', ''git'']
     = [''topic'']
   \<and> fst (get_primary_branch run_listing_only [''home'', ''u'', ''proj''] [''usr'', ''bin'', ''git''])
     = Inr None
   \<and> report_repo run_listing_only [''home'', ''u''] [''usr'', ''bin'', ''git'']
        [''home'', ''u'', ''proj'']
     = Inr [Styled ''=== ~/proj ==='' BRIGHT_CYAN, Styled ''* topic'' YELLOW, Blank]"
proof -
  let ?git = "[''usr'', ''bin'', ''git'']" and ?repo = "[''home'', ''u'', ''proj'']"
  let ?home = "[''home'', ''u'']"
  have d: "display_path ?home ?repo = Inr ''~/proj''"
    by (simp add: display_path_eq rel_str_def)
  from report_keeps_non_primary [of run_local ?repo ?git ?home]
  obtain primary shown where
    "fst (get_primary_branch run_local ?repo ?git) = Inr primary"
    "display_path ?home ?repo = Inr shown"
    and r: "report_repo run_local ?home ?git ?repo =
        Inr (if [b \<leftarrow> get_repo_branches run_local ?repo ?git. Some b \<noteq> primary] = [] then []
             else Styled (''=== '' @ shown @ '' ==='') BRIGHT_CYAN
                  # map (\<lambda>b. Styled (''* '' @ b) YELLOW)
                      [b \<leftarrow> get_repo_branches run_local ?repo ?git. Some b \<noteq> primary]
                  @ [Blank])"
    by blast
  then have "primary = Some ''master''" "shown = ''~/proj''"
    by (simp_all add: primary_run_local d)
  with r have a: "report_repo run_local ?home ?git ?repo
     = Inr [Styled ''=== ~/proj ==='' BRIGHT_CYAN, Styled ''* feature/x'' YELLOW,
            Styled ''* bugfix'' YELLOW, Blank]"
    by (simp add: branches_run_local)
  from report_keeps_non_primary [of run_listing_only ?repo ?git ?home]
  obtain primary' shown' where
    "fst (get_primary_branch run_listing_only ?repo ?git) = Inr primary'"
    "display_path ?home ?repo = Inr shown'"
    and r': "report_repo run_listing_only ?home ?git ?repo =
        Inr (if [b \<leftarrow> get_repo_branches run_listing_only ?repo ?git. Some b \<noteq> primary'] = []
             then []
             else Styled (''=== '' @ shown' @ '' ==='') BRIGHT_CYAN
                  # map (\<lambda>b. Styled (''* '' @ b) YELLOW)
                      [b \<leftarrow> get_repo_branches run_listing_only ?repo ?git. Some b \<noteq> primary']
                  @ [Blank])"
    by blast
  then have "primary' = None" "shown' = ''~/proj''"
    by (simp_all add: primary_listing_only d)
  with r' have b: "report_repo run_listing_only ?home ?git ?repo
     = Inr [Styled ''=== ~/proj ==='' BRIGHT_CYAN, Styled ''* topic'' YELLOW, Blank]"
    by (simp add: branches_listing_only)
  have c: "fst (get_primary_branch run_listing_only ?repo ?git) = Inr None"
    by (simp add: primary_listing_only)
  from branches_run_local [of ?repo] primary_run_local [of ?repo] a
    branches_listing_only [of ?repo ?git] c b
  show ?thesis by (intro conjI)
qed












section \<open>The order of the repositories\<close>

text \<open>
  The order of the path strings and the order of the paths agree as long as no
  component has a character below the slash.
\<close>

lemma append_less_same: "xs @ ys < xs @ zs \<longleftrightarrow> ys < (zs :: 'a :: linorder list)"
  by (induction xs) simp_all

lemma component_less_joined:
  fixes c d :: string
  assumes "c < d" "\<forall>ch \<in> set d. CHR ''/'' < ch" "x = [] \<or> hd x = CHR ''/''"
  shows "c @ x < d @ y"
  using assms
proof (induction c arbitrary: d)
  case Nil
  then obtain e d' where d: "d = e # d'" by (cases d) auto
  with Nil have "CHR ''/'' < e" by simp
  with Nil(3) d show ?case by (cases x) auto
next
  case (Cons a c)
  then obtain b d' where d: "d = b # d'" by (cases d) auto
  with Cons.prems have "a < b \<or> a = b \<and> c < d'" by simp
  then show ?case
  proof
    assume "a < b"
    with d show ?thesis by simp
  next
    assume "a = b \<and> c < d'"
    moreover from this Cons.prems d have "c @ x < d' @ y"
      by (intro Cons.IH) simp_all
    ultimately show ?thesis using d by simp
  qed
qed

lemma joined_head:
  "concat (map (\<lambda>c. CHR ''/'' # c) p) = []
     \<or> hd (concat (map (\<lambda>c. CHR ''/'' # c) p)) = CHR ''/''"
  by (cases p) simp_all

lemma joined_less:
  "p < q \<Longrightarrow> \<forall>c \<in> set q. \<forall>ch \<in> set c. CHR ''/'' < ch \<Longrightarrow>
   concat (map (\<lambda>c. CHR ''/'' # c) p) < concat (map (\<lambda>c. CHR ''/'' # c) q)"
proof (induction p arbitrary: q)
  case Nil
  then show ?case by (cases q) simp_all
next
  case (Cons c p)
  then obtain d q' where q: "q = d # q'" by (cases q) auto
  with Cons.prems have "c < d \<or> c = d \<and> p < q'" by simp
  then show ?case
  proof
    assume "c < d"
    moreover from Cons.prems q have "\<forall>ch \<in> set d. CHR ''/'' < ch" by simp
    ultimately have "c @ concat (map (\<lambda>c. CHR ''/'' # c) p)
        < d @ concat (map (\<lambda>c. CHR ''/'' # c) q')"
      using joined_head [of p] by (rule component_less_joined)
    with q show ?thesis by simp
  next
    assume a: "c = d \<and> p < q'"
    with Cons.prems q
    have "concat (map (\<lambda>c. CHR ''/'' # c) p) < concat (map (\<lambda>c. CHR ''/'' # c) q')"
      by (intro Cons.IH) simp_all
    with a q show ?thesis by (simp add: append_less_same)
  qed
qed

lemma path_str_mono:
  assumes "p \<le> q" "\<forall>c \<in> set q. \<forall>ch \<in> set c. CHR ''/'' < ch"
  shows "path_str p \<le> path_str q"
proof (cases "p = q")
  case True
  then show ?thesis by simp
next
  case False
  with assms(1) have lt: "p < q" by simp
  then have q: "q \<noteq> []" by auto
  show ?thesis
  proof (cases "p = []")
    case True
    with q show ?thesis by (cases q) (simp_all add: path_str_def)
  next
    case False
    with q joined_less [OF lt assms(2)] show ?thesis
      by (simp add: path_str_def less_imp_le)
  qed
qed

lemma sorted_path_str:
  assumes "sorted ps" "\<forall>p \<in> set ps. \<forall>c \<in> set p. \<forall>ch \<in> set c. CHR ''/'' < ch"
  shows "sorted (map path_str ps)"
proof -
  have "sorted_wrt (\<lambda>p q. path_str p \<le> path_str q) ps"
  proof (rule sorted_wrt_mono_rel [of ps "(\<le>)"])
    fix p q assume "p \<in> set ps" "q \<in> set ps" "p \<le> q"
    with assms(2) show "path_str p \<le> path_str q"
      by (intro path_str_mono) simp_all
  next
    show "sorted_wrt (\<le>) ps" using assms(1) by simp
  qed
  then show ?thesis by (simp add: sorted_map)
qed

lemma repo_order_props:
  "sorted (repo_order resolve tree root skip)"
  "distinct (repo_order resolve tree root skip)"
  "set (repo_order resolve tree root skip) = resolve ` set (get_git_repos root tree skip)"
  by (simp_all add: repo_order_def)

text \<open>
  C3, as amended. The loop of \<^verbatim>\<open>find_repos_with_branches\<close> takes the resolved repository
  paths in ascending order of the paths as \<^verbatim>\<open>pathlib\<close> compares them, component by
  component, and prints the lines of each repository in that order. This is the
  ascending order of the path strings whenever no component of these paths has a
  character below the slash.
\<close>

theorem repos_in_path_order:
  "sorted (repo_order resolve tree root skip_hidden_dirs)
   \<and> set (repo_order resolve tree root skip_hidden_dirs)
       = resolve ` set (get_git_repos root tree skip_hidden_dirs)
   \<and> find_repos_with_branches resolve tree run home root git_path skip_hidden_dirs
       = (concat (map (\<lambda>r. case report_repo run home git_path r of
                              Inr printed \<Rightarrow> printed | Inl e \<Rightarrow> [])
                    (repo_order resolve tree root skip_hidden_dirs)), None)
   \<and> ((\<forall>p \<in> set (repo_order resolve tree root skip_hidden_dirs).
          \<forall>c \<in> set p. \<forall>ch \<in> set c. CHR ''/'' < ch)
        \<longrightarrow> sorted (map path_str (repo_order resolve tree root skip_hidden_dirs)))"
proof (intro conjI impI)
  show "sorted (repo_order resolve tree root skip_hidden_dirs)"
    by (rule repo_order_props)
  show "set (repo_order resolve tree root skip_hidden_dirs)
       = resolve ` set (get_git_repos root tree skip_hidden_dirs)"
    by (rule repo_order_props)
  show "find_repos_with_branches resolve tree run home root git_path skip_hidden_dirs
       = (concat (map (\<lambda>r. case report_repo run home git_path r of
                              Inr printed \<Rightarrow> printed | Inl e \<Rightarrow> [])
                    (repo_order resolve tree root skip_hidden_dirs)), None)"
    by (simp only: find_repos_with_branches_def report_loop_eq)
next
  assume "\<forall>p \<in> set (repo_order resolve tree root skip_hidden_dirs).
          \<forall>c \<in> set p. \<forall>ch \<in> set c. CHR ''/'' < ch"
  with repo_order_props(1) show "sorted (map path_str (repo_order resolve tree root skip_hidden_dirs))"
    by (rule sorted_path_str)
qed

text \<open>
  The order of the path strings is not the order of the loop in general. Of the
  repositories \<^verbatim>\<open>/r/a/x\<close> and \<^verbatim>\<open>/r/a-b\<close> the loop takes \<^verbatim>\<open>/r/a/x\<close> first, since the
  component \<^verbatim>\<open>a\<close> is a proper prefix of \<^verbatim>\<open>a-b\<close>; as strings \<^verbatim>\<open>/r/a-b\<close> comes first, since
  the hyphen is below the slash.
\<close>

theorem repos_in_string_order_counterexample:
  "repo_order resolve_plain example_tree [''r''] True = [[''r'', ''a'', ''x''], [''r'', ''a-b'']]
   \<and> map path_str (repo_order resolve_plain example_tree [''r''] True) = [''/r/a/x'', ''/r/a-b'']
   \<and> ''/r/a-b'' < ''/r/a/x''
   \<and> \<not> sorted (map path_str (repo_order resolve_plain example_tree [''r''] True))"
proof -
  have g: "get_git_repos [''r''] example_tree True = [[''r'', ''a'', ''x''], [''r'', ''a-b'']]"
    by (simp add: walk_repos_Dir prune_def subdirs_def keep_name_def startswith_def
        get_git_repos_def example_tree_def)
  have "resolve_plain ` set [[''r'', ''a'', ''x''], [''r'', ''a-b'']]
      = set [[''r'', ''a'', ''x''], [''r'', ''a-b'']]"
    by (simp add: resolve_plain_def)
  then have o: "repo_order resolve_plain example_tree [''r''] True
      = [[''r'', ''a'', ''x''], [''r'', ''a-b'']]"
    unfolding repo_order_def g
    by (simp only: sorted_list_of_set_sort_remdups) (simp add: less_char_def)
  have m: "map path_str [[''r'', ''a'', ''x''], [''r'', ''a-b'']] = [''/r/a/x'', ''/r/a-b'']"
    by (simp add: path_str_def)
  have l: "''/r/a-b'' < ''/r/a/x''"
    by (simp add: less_char_def)
  then have "\<not> sorted [''/r/a/x'', ''/r/a-b'']"
    by simp
  with o m l show ?thesis by simp
qed

theorem repos_in_path_order_witness:
  "repo_order resolve_plain example_tree_plain [''r''] True = [[''r'', ''a'', ''x''], [''r'', ''b'']]
   \<and> get_git_repos [''r''] example_tree_plain True = [[''r'', ''b''], [''r'', ''a'', ''x'']]
   \<and> CHR ''/'' < CHR ''r'' \<and> CHR ''/'' < CHR ''a'' \<and> CHR ''/'' < CHR ''x'' \<and> CHR ''/'' < CHR ''b''
   \<and> map path_str (repo_order resolve_plain example_tree_plain [''r''] True) = [''/r/a/x'', ''/r/b'']
   \<and> sorted [''/r/a/x'', ''/r/b'']"
proof -
  note main = repos_in_path_order [where resolve = resolve_plain and tree = example_tree_plain
      and root = "[''r'']" and skip_hidden_dirs = True and run = run_local
      and home = "[''home'', ''u'']" and git_path = "[''usr'', ''bin'', ''git'']"]
  have g: "get_git_repos [''r''] example_tree_plain True = [[''r'', ''b''], [''r'', ''a'', ''x'']]"
    by (simp add: walk_repos_Dir prune_def subdirs_def keep_name_def startswith_def
        get_git_repos_def example_tree_plain_def)
  have "resolve_plain ` set [[''r'', ''b''], [''r'', ''a'', ''x'']]
      = set [[''r'', ''b''], [''r'', ''a'', ''x'']]"
    by (simp add: resolve_plain_def)
  then have o: "repo_order resolve_plain example_tree_plain [''r''] True
      = [[''r'', ''a'', ''x''], [''r'', ''b'']]"
    unfolding repo_order_def g
    by (simp only: sorted_list_of_set_sort_remdups) (simp add: less_char_def)
  have ch: "CHR ''/'' < CHR ''r''" "CHR ''/'' < CHR ''a''" "CHR ''/'' < CHR ''x''"
    "CHR ''/'' < CHR ''b''"
    by (simp_all add: less_char_def)
  have m: "map path_str [[''r'', ''a'', ''x''], [''r'', ''b'']] = [''/r/a/x'', ''/r/b'']"
    by (simp add: path_str_def)
  from main ch have "sorted (map path_str (repo_order resolve_plain example_tree_plain [''r''] True))"
    unfolding o by simp
  then have s: "sorted [''/r/a/x'', ''/r/b'']"
    unfolding o m .
  from o g ch m s show ?thesis by (simp only: o simp_thms)
qed

lemma count_list_distinct: "distinct xs \<Longrightarrow> x \<in> set xs \<Longrightarrow> count_list xs x = 1"
  by (induction xs) auto

text \<open>
  C9. The list of paths the report loop runs over has no duplicates and holds exactly
  the resolved paths of the located repositories: however many located paths resolve to
  the same canonical path, that path occurs once. The loop prints the lines of each path
  of this list one after the other, so a canonical path has at most one entry in the
  report.
\<close>

theorem repo_paths_unique:
  "distinct (repo_order resolve tree root skip_hidden_dirs)
   \<and> set (repo_order resolve tree root skip_hidden_dirs)
       = resolve ` set (get_git_repos root tree skip_hidden_dirs)
   \<and> (\<forall>p \<in> set (get_git_repos root tree skip_hidden_dirs).
         count_list (repo_order resolve tree root skip_hidden_dirs) (resolve p) = 1)
   \<and> find_repos_with_branches resolve tree run home root git_path skip_hidden_dirs
       = report_loop run home git_path (repo_order resolve tree root skip_hidden_dirs)
   \<and> fst (report_loop run home git_path (repo_order resolve tree root skip_hidden_dirs))
       = concat (map (\<lambda>r. case report_repo run home git_path r of
                             Inr printed \<Rightarrow> printed | Inl e \<Rightarrow> [])
                   (repo_order resolve tree root skip_hidden_dirs))"
proof (intro conjI ballI)
  show d: "distinct (repo_order resolve tree root skip_hidden_dirs)"
    by (rule repo_order_props)
  show s: "set (repo_order resolve tree root skip_hidden_dirs)
       = resolve ` set (get_git_repos root tree skip_hidden_dirs)"
    by (rule repo_order_props)
  show "find_repos_with_branches resolve tree run home root git_path skip_hidden_dirs
       = report_loop run home git_path (repo_order resolve tree root skip_hidden_dirs)"
    by (simp only: find_repos_with_branches_def)
  show "fst (report_loop run home git_path (repo_order resolve tree root skip_hidden_dirs))
       = concat (map (\<lambda>r. case report_repo run home git_path r of
                             Inr printed \<Rightarrow> printed | Inl e \<Rightarrow> [])
                   (repo_order resolve tree root skip_hidden_dirs))"
    by (simp only: report_loop_eq fst_conv)
  fix p assume "p \<in> set (get_git_repos root tree skip_hidden_dirs)"
  then have "resolve p \<in> set (repo_order resolve tree root skip_hidden_dirs)"
    unfolding s by (rule imageI)
  with d show "count_list (repo_order resolve tree root skip_hidden_dirs) (resolve p) = 1"
    by (rule count_list_distinct)
qed

theorem repo_paths_unique_witness:
  "get_git_repos [''r''] example_tree True = [[''r'', ''a'', ''x''], [''r'', ''a-b'']]
   \<and> resolve_alias [''r'', ''a'', ''x''] = [''r'', ''a'', ''x'']
   \<and> resolve_alias [''r'', ''a-b''] = [''r'', ''a'', ''x'']
   \<and> repo_order resolve_alias example_tree [''r''] True = [[''r'', ''a'', ''x'']]
   \<and> count_list (repo_order resolve_alias example_tree [''r''] True) [''r'', ''a'', ''x''] = 1"
proof -
  note main = repo_paths_unique [where resolve = resolve_alias and tree = example_tree
      and root = "[''r'']" and skip_hidden_dirs = True and run = run_local
      and home = "[''home'', ''u'']" and git_path = "[''usr'', ''bin'', ''git'']"]
  have g: "get_git_repos [''r''] example_tree True = [[''r'', ''a'', ''x''], [''r'', ''a-b'']]"
    by (simp add: walk_repos_Dir prune_def subdirs_def keep_name_def startswith_def
        get_git_repos_def example_tree_def)
  have r1: "resolve_alias [''r'', ''a'', ''x''] = [''r'', ''a'', ''x'']"
    and r2: "resolve_alias [''r'', ''a-b''] = [''r'', ''a'', ''x'']"
    by (simp_all add: resolve_alias_def)
  have "resolve_alias ` set [[''r'', ''a'', ''x''], [''r'', ''a-b'']] = set [[''r'', ''a'', ''x'']]"
    by (simp add: r1 r2)
  then have o: "repo_order resolve_alias example_tree [''r''] True = [[''r'', ''a'', ''x'']]"
    unfolding repo_order_def g
    by (simp only: sorted_list_of_set_sort_remdups) simp
  have "[''r'', ''a-b''] \<in> set (get_git_repos [''r''] example_tree True)"
    by (simp add: g)
  with main have "count_list (repo_order resolve_alias example_tree [''r''] True)
      (resolve_alias [''r'', ''a-b'']) = 1"
    by blast
  then have c: "count_list (repo_order resolve_alias example_tree [''r''] True)
      [''r'', ''a'', ''x''] = 1"
    by (simp only: r2)
  from g r1 r2 o c show ?thesis by (intro conjI)
qed

section \<open>Output that does not decode\<close>























end
